theory Spec2Isabelle
  imports Complex_Main
begin

section \<open>Data model\<close>

text \<open>
  The repository works on NumPy arrays of double precision numbers. Numbers are
  modelled as \<^typ>\<open>real\<close>: every statement below is about the exact arithmetic
  that the floating point code approximates. An array of two or four indices is
  modelled by its entry function; its shape is carried by the orbital count
  \<open>no\<close> (\<open>len(Gamma)\<close> in the source): the 1-RDM \<open>gamma\<close> has shape
  \<open>2 * no \<times> 2 * no\<close>, the 2-RDM \<open>Gamma\<close> has shape \<open>no \<times> no \<times> no \<times> no\<close>.
  Orbital indices are natural numbers (Python's negative indices are left out).
  An exception of the source is a value of type \<open>error\<close>.
\<close>

type_synonym matrix = "nat \<Rightarrow> nat \<Rightarrow> real"

type_synonym tensor4 = "nat \<Rightarrow> nat \<Rightarrow> nat \<Rightarrow> nat \<Rightarrow> real"

datatype error = IndexError | AssertionError

section \<open>Tailored CCSD: target amplitudes (tccsd.py)\<close>

text \<open>
  \<open>get_cas_t1t2\<close>, lines 34 to 41 of tccsd.py. The conversion of the CI vector
  into \<open>c0, c1, c2\<close> is done by pyscf; its result is the input here.
  \<open>einsum('ia,jb->ijab', t1, t1)\<close> is the outer product \<open>t1 i a * t1 j b\<close>.
\<close>

definition get_cas_t1t2 :: "real \<Rightarrow> matrix \<Rightarrow> tensor4 \<Rightarrow> error + (matrix \<times> tensor4)" where
  "get_cas_t1t2 c0 c1 c2 =
     (if \<bar>c0\<bar> > 1 / 10 ^ 8 then
        (let t1 = (\<lambda>i a. c1 i a / c0);
             t2 = (\<lambda>i j a b. c2 i j a b / c0 - t1 i a * t1 j b)
         in Inr (t1, t2))
      else Inl AssertionError)"

text \<open>
  What \<open>make_tailored_ccsd\<close> leaves behind: the projectors and the fixed target
  amplitudes that the installed callback closes over.
\<close>

record tailored =
  pocc :: matrix
  pvir :: matrix
  t1cas_fci :: matrix
  t2cas_fci :: tensor4

text \<open>
  \<open>make_tailored_ccsd\<close>, lines 16 to 61 of tccsd.py. The projectors \<open>pocc\<close> and
  \<open>pvir\<close> are products of matrices supplied by pyscf and are taken as given; the
  only failure of the function's own is the assertion of \<open>get_cas_t1t2\<close>, which
  is reached before the callback is installed.
\<close>

definition make_tailored_ccsd ::
  "matrix \<Rightarrow> matrix \<Rightarrow> real \<Rightarrow> matrix \<Rightarrow> tensor4 \<Rightarrow> error + tailored" where
  "make_tailored_ccsd po pv c0 c1 c2 =
     (case get_cas_t1t2 c0 c1 c2 of
        Inl e \<Rightarrow> Inl e
      | Inr (t1, t2) \<Rightarrow>
          Inr \<lparr>pocc = po, pvir = pv, t1cas_fci = t1, t2cas_fci = t2\<rparr>)"

section \<open>The initial random rotation (jacobi.py, line 197)\<close>

text \<open>
  \<open>X = (np.random.rand(no,no)/2-1)/1/(1+49*np.random.rand())\<close>. The draws of
  the random generator are inputs: \<open>R\<close> is the matrix of draws and \<open>u\<close> the
  single draw of the denominator; each draw of \<open>rand\<close> lies in \<open>[0, 1)\<close>.
\<close>

definition initial_X :: "matrix \<Rightarrow> real \<Rightarrow> matrix" where
  "initial_X R u = (\<lambda>a b. (R a b / 2 - 1) / 1 / (1 + 49 * u))"

text \<open>Line 198, \<open>X = X - X.T\<close>.\<close>

definition antisymmetrize :: "matrix \<Rightarrow> matrix" where
  "antisymmetrize X = (\<lambda>a b. X a b - X b a)"

text \<open>A matrix of draws: every entry in \<open>[0, 1)\<close>.\<close>

definition rand_draws :: "matrix \<Rightarrow> bool" where
  "rand_draws R = (\<forall>a b. 0 \<le> R a b \<and> R a b < 1)"

section \<open>The two-orbital transform (jacobi.py, lines 63 to 115)\<close>

text \<open>\<open>np.zeros\<close>, \<open>np.eye\<close> and the assignment \<open>M[r,c] = v\<close>.\<close>

definition np_zeros :: matrix where
  "np_zeros = (\<lambda>r c. 0)"

definition np_eye :: matrix where
  "np_eye = (\<lambda>r c. if r = c then 1 else 0)"

definition assign :: "matrix \<Rightarrow> nat \<Rightarrow> nat \<Rightarrow> real \<Rightarrow> matrix" where
  "assign M r c v = M(r := (M r)(c := v))"

text \<open>
  Lines 80 to 85: the rotation matrix \<open>U1\<close>, the identity with four entries
  overwritten in the order of the source (the last assignment wins when
  \<open>i = j\<close>).
\<close>

definition rotation_U1 :: "nat \<Rightarrow> nat \<Rightarrow> real \<Rightarrow> matrix" where
  "rotation_U1 i j t =
     (let u1_00 = cos t; u1_01 = sin t; u1_10 = - sin t; u1_11 = cos t;
          U1 = np_eye;
          U1 = assign U1 i i u1_00;
          U1 = assign U1 i j u1_01;
          U1 = assign U1 j i u1_10;
          U1 = assign U1 j j u1_11
      in U1)"

text \<open>Line 90: \<open>np.einsum('ia,jb,kc,ld,abcd->ijkl', U1, U1, U1, U1, Gamma)\<close>.\<close>

definition einsum_Gamma :: "nat \<Rightarrow> matrix \<Rightarrow> tensor4 \<Rightarrow> tensor4" where
  "einsum_Gamma no U G =
     (\<lambda>i j k l. \<Sum>a<no. \<Sum>b<no. \<Sum>c<no. \<Sum>d<no. U i a * U j b * U k c * U l d * G a b c d)"

text \<open>
  Lines 93 to 98 (and 100 to 105): the flag \<open>testa\<close> and the list \<open>m_list\<close> of
  an index \<open>a\<close>. \<open>list(set([a,i,j]))\<close> holds the distinct elements; the order in
  which Python lists them does not matter to a sum of reals.
\<close>

definition mixing_list :: "nat \<Rightarrow> nat \<Rightarrow> nat \<Rightarrow> nat \<times> nat list" where
  "mixing_list a i j = (if a = i \<or> a = j then (1, remdups [a, i, j]) else (0, [a]))"

text \<open>Lines 109 and 110: the two \<open>+=\<close> of the innermost loop body.\<close>

definition accumulate :: "matrix \<Rightarrow> matrix \<Rightarrow> nat \<Rightarrow> nat \<Rightarrow> nat \<Rightarrow> nat \<Rightarrow> matrix \<Rightarrow> matrix" where
  "accumulate U1 gamma a b m n gamma' =
     (let gamma' = assign gamma' (2 * a) (2 * b)
            (gamma' (2 * a) (2 * b) + U1 a m * U1 b n * gamma (2 * m) (2 * n));
          gamma' = assign gamma' (2 * a + 1) (2 * b + 1)
            (gamma' (2 * a + 1) (2 * b + 1) + U1 a m * U1 b n * gamma (2 * m + 1) (2 * n + 1))
      in gamma')"

text \<open>Lines 100 to 113: the body of the loop over \<open>b\<close>, for one \<open>a\<close> and one \<open>b\<close>.\<close>

definition update_block :: "matrix \<Rightarrow> matrix \<Rightarrow> nat \<Rightarrow> nat \<Rightarrow> nat \<Rightarrow> nat \<Rightarrow> matrix \<Rightarrow> matrix" where
  "update_block U1 gamma i j a b gamma' =
     (let (testa, m_list) = mixing_list a i j;
          (testb, n_list) = mixing_list b i j
      in if testa + testb > 0
         then fold (\<lambda>m. fold (\<lambda>n. accumulate U1 gamma a b m n) n_list) m_list gamma'
         else (let gamma' = assign gamma' (2 * a) (2 * b) (gamma (2 * a) (2 * b));
                   gamma' = assign gamma' (2 * a + 1) (2 * b + 1) (gamma (2 * a + 1) (2 * b + 1))
               in gamma'))"

text \<open>Line 99: the loop \<open>for b in range(no)\<close>, for one \<open>a\<close>.\<close>

definition update_row :: "matrix \<Rightarrow> matrix \<Rightarrow> nat \<Rightarrow> nat \<Rightarrow> nat \<Rightarrow> nat \<Rightarrow> matrix \<Rightarrow> matrix" where
  "update_row U1 gamma i j no a gamma' = fold (\<lambda>b. update_block U1 gamma i j a b) [0..<no] gamma'"

text \<open>
  \<open>jacobi_transform\<close>. The source's \<open>gamma_\<close> and \<open>Gamma_\<close> are \<open>gamma'\<close> and
  \<open>Gamma'\<close> here. Writing \<open>U1[i,i]\<close> with an index outside \<open>range(no)\<close>
  raises IndexError.
\<close>

definition jacobi_transform ::
  "nat \<Rightarrow> matrix \<Rightarrow> tensor4 \<Rightarrow> nat \<Rightarrow> nat \<Rightarrow> real \<Rightarrow> error + (matrix \<times> tensor4)" where
  "jacobi_transform no gamma Gamma i j t =
     (if i < no \<and> j < no then
        (let U1 = rotation_U1 i j t;
             gamma' = np_zeros;
             Gamma' = einsum_Gamma no U1 Gamma;
             gamma' = fold (update_row U1 gamma i j no) [0..<no] gamma'
         in Inr (gamma', Gamma'))
      else Inl IndexError)"

text \<open>
  The full contraction of the spin-doubled rotation against the 1-RDM, as
  lines 200 and 201 of jacobi.py do it: \<open>U_ = np.kron(U, np.eye(2))\<close> and
  \<open>np.einsum('ia,jb,ab->ij', U_, U_, gamma)\<close>, for a 1-RDM of \<open>n\<close> rows.
\<close>

definition np_kron_eye2 :: "matrix \<Rightarrow> matrix" where
  "np_kron_eye2 U = (\<lambda>p q. U (p div 2) (q div 2) * np_eye (p mod 2) (q mod 2))"

definition einsum_gamma :: "nat \<Rightarrow> matrix \<Rightarrow> matrix \<Rightarrow> matrix" where
  "einsum_gamma n U g = (\<lambda>i j. \<Sum>a<n. \<Sum>b<n. U i a * U j b * g a b)"

text \<open>A 1-RDM without mixed-spin entries, on \<open>no\<close> orbitals.\<close>

definition spin_blocked :: "nat \<Rightarrow> matrix \<Rightarrow> bool" where
  "spin_blocked no g = (\<forall>a<no. \<forall>b<no. g (2 * a) (2 * b + 1) = 0 \<and> g (2 * a + 1) (2 * b) = 0)"

text \<open>
  Auxiliary notions for the proofs. \<open>block_value\<close> is what the loops store at
  the entry of the orbitals \<open>a, b\<close> and the spin \<open>s\<close>, over the earlier value
  \<open>old\<close>; \<open>rot_apply\<close> contracts one index with the rotation matrix.
\<close>

definition block_value :: "matrix \<Rightarrow> matrix \<Rightarrow> nat \<Rightarrow> nat \<Rightarrow> nat \<Rightarrow> nat \<Rightarrow> nat \<Rightarrow> real \<Rightarrow> real" where
  "block_value U gm i j a b s old =
     (if fst (mixing_list a i j) + fst (mixing_list b i j) > 0
      then old + (\<Sum>m\<leftarrow>snd (mixing_list a i j). \<Sum>n\<leftarrow>snd (mixing_list b i j).
                    U a m * U b n * gm (2 * m + s) (2 * n + s))
      else gm (2 * a + s) (2 * b + s))"

definition rot_apply :: "nat \<Rightarrow> nat \<Rightarrow> nat \<Rightarrow> real \<Rightarrow> (nat \<Rightarrow> real) \<Rightarrow> nat \<Rightarrow> real" where
  "rot_apply no i j t h x = (\<Sum>a<no. rotation_U1 i j t x a * h a)"

text \<open>The contraction of the first, second, third or fourth index of a tensor.\<close>

definition rot_index1 :: "nat \<Rightarrow> nat \<Rightarrow> nat \<Rightarrow> real \<Rightarrow> tensor4 \<Rightarrow> tensor4" where
  "rot_index1 no i j t G = (\<lambda>a b c d. rot_apply no i j t (\<lambda>x. G x b c d) a)"

definition rot_index2 :: "nat \<Rightarrow> nat \<Rightarrow> nat \<Rightarrow> real \<Rightarrow> tensor4 \<Rightarrow> tensor4" where
  "rot_index2 no i j t G = (\<lambda>a b c d. rot_apply no i j t (\<lambda>x. G a x c d) b)"

definition rot_index3 :: "nat \<Rightarrow> nat \<Rightarrow> nat \<Rightarrow> real \<Rightarrow> tensor4 \<Rightarrow> tensor4" where
  "rot_index3 no i j t G = (\<lambda>a b c d. rot_apply no i j t (\<lambda>x. G a b x d) c)"

definition rot_index4 :: "nat \<Rightarrow> nat \<Rightarrow> nat \<Rightarrow> real \<Rightarrow> tensor4 \<Rightarrow> tensor4" where
  "rot_index4 no i j t G = (\<lambda>a b c d. rot_apply no i j t (\<lambda>x. G a b c x) d)"

text \<open>The contraction of the row or of the column index of a matrix.\<close>

definition rot_row :: "nat \<Rightarrow> nat \<Rightarrow> nat \<Rightarrow> real \<Rightarrow> matrix \<Rightarrow> matrix" where
  "rot_row no i j t B = (\<lambda>a b. rot_apply no i j t (\<lambda>x. B x b) a)"

definition rot_col :: "nat \<Rightarrow> nat \<Rightarrow> nat \<Rightarrow> real \<Rightarrow> matrix \<Rightarrow> matrix" where
  "rot_col no i j t B = (\<lambda>a b. rot_apply no i j t (\<lambda>x. B a x) b)"

text \<open>The block of a 1-RDM that pairs the spin \<open>s\<close> with the spin \<open>s'\<close>.\<close>

definition spin_block :: "nat \<Rightarrow> nat \<Rightarrow> matrix \<Rightarrow> matrix" where
  "spin_block s s' g = (\<lambda>m n. g (2 * m + s) (2 * n + s'))"

text \<open>
  Two inputs for the examples: a 1-RDM with every entry 1 (its mixed-spin
  entries are not zero) and the zero 2-RDM.
\<close>

definition gamma_ones :: matrix where
  "gamma_ones = (\<lambda>r c. 1)"

definition Gamma_zero :: tensor4 where
  "Gamma_zero = (\<lambda>a b c d. 0)"

text \<open>The entry \<open>[r, c]\<close> of the 1-RDM that a transform returns.\<close>

definition gamma_entry :: "error + (matrix \<times> tensor4) \<Rightarrow> nat \<Rightarrow> nat \<Rightarrow> error + real" where
  "gamma_entry res r c = (case res of Inl e \<Rightarrow> Inl e | Inr (g, G) \<Rightarrow> Inr (g r c))"

section \<open>The pairwise entropy cost and the angle search (jacobi.py, lines 15 to 158)\<close>

text \<open>
  Modelled from the spec: \<open>shannon\<close> of the module \<open>qio.entropy\<close>, which is
  imported by jacobi.py and is not part of the sources. The spec (section 6)
  gives it as \<open>-\<Sum> p log p\<close> where an outcome of probability zero contributes
  exactly 0. No theorem below depends on the values it takes.
\<close>

definition shannon :: "real list \<Rightarrow> real" where
  "shannon spec = - (\<Sum>p\<leftarrow>spec. if p = 0 then 0 else p * ln p)"

text \<open>
  Lines 36 to 56: the local spectrum of the orbital \<open>k\<close> of the pair after the
  rotation by \<open>theta\<close>. The loops over \<open>m, n, p, q\<close> in \<open>range(2)\<close> add up the
  terms of \<open>nu\<close>, \<open>nd\<close> and \<open>nn\<close>.
\<close>

definition rotated_spectrum :: "real \<Rightarrow> nat \<Rightarrow> nat \<Rightarrow> matrix \<Rightarrow> tensor4 \<Rightarrow> nat \<Rightarrow> real list" where
  "rotated_spectrum theta i j rdm1 rdm2 k =
     (let u1 = (\<lambda>r c. [[cos theta, sin theta], [- sin theta, cos theta]] ! r ! c);
          indices = [i, j];
          index = (if k = j then 1 else 0);
          nu = (\<Sum>m<2. \<Sum>n<2. u1 index m * u1 index n * rdm1 (2 * indices ! m) (2 * indices ! n));
          nd = (\<Sum>m<2. \<Sum>n<2.
                  u1 index m * u1 index n * rdm1 (2 * indices ! m + 1) (2 * indices ! n + 1));
          nn = (\<Sum>m<2. \<Sum>n<2. \<Sum>p<2. \<Sum>q<2.
                  u1 index m * u1 index n * u1 index p * u1 index q *
                  rdm2 (indices ! m) (indices ! n) (indices ! p) (indices ! q))
      in [1 - nu - nd + nn, nu - nn, nd - nn, nn])"

text \<open>The value that \<open>jacobi_cost\<close> returns when no index is out of range.\<close>

definition jacobi_cost_value :: "real \<Rightarrow> nat \<Rightarrow> nat \<Rightarrow> matrix \<Rightarrow> tensor4 \<Rightarrow> nat list \<Rightarrow> real" where
  "jacobi_cost_value theta i j rdm1 rdm2 inactive_indices =
     fold (\<lambda>k cost_fun.
             if k \<in> set inactive_indices
             then cost_fun + shannon (rotated_spectrum theta i j rdm1 rdm2 k)
             else cost_fun)
       [i, j] 0"

text \<open>
  \<open>jacobi_cost\<close>. The arrays are read only for an inactive \<open>k\<close>, and then at
  both indices of the pair: an index outside \<open>range(no)\<close> raises IndexError
  exactly when one of \<open>i, j\<close> is inactive.
\<close>

definition jacobi_cost ::
  "nat \<Rightarrow> real \<Rightarrow> nat \<Rightarrow> nat \<Rightarrow> matrix \<Rightarrow> tensor4 \<Rightarrow> nat list \<Rightarrow> error + real" where
  "jacobi_cost no theta i j rdm1 rdm2 inactive_indices =
     (if (i \<in> set inactive_indices \<or> j \<in> set inactive_indices) \<and> \<not> (i < no \<and> j < no)
      then Inl IndexError
      else Inr (jacobi_cost_value theta i j rdm1 rdm2 inactive_indices))"

text \<open>\<open>np.arange(start, stop, step)\<close> over the reals.\<close>

definition np_arange :: "real \<Rightarrow> real \<Rightarrow> real \<Rightarrow> real list" where
  "np_arange start stop step =
     map (\<lambda>k. start + real k * step) [0..<nat \<lceil>(stop - start) / step\<rceil>]"

text \<open>A loop whose body may raise: the first error ends it.\<close>

fun fold_err :: "('a \<Rightarrow> 's \<Rightarrow> error + 's) \<Rightarrow> 'a list \<Rightarrow> 's \<Rightarrow> error + 's" where
  "fold_err f [] s = Inr s"
| "fold_err f (x # xs) s = (case f x s of Inl e \<Rightarrow> Inl e | Inr s' \<Rightarrow> fold_err f xs s')"

text \<open>Lines 140 to 144: the body of the coarse loop, on the state \<open>(t_opt, cost)\<close>.\<close>

definition coarse_step ::
  "nat \<Rightarrow> nat \<Rightarrow> nat \<Rightarrow> matrix \<Rightarrow> tensor4 \<Rightarrow> nat list \<Rightarrow> real \<Rightarrow> real \<times> real \<Rightarrow> error + real \<times> real" where
  "coarse_step no i j gamma Gamma inactive_indices t st =
     (case st of (t_opt, cost) \<Rightarrow>
        (case jacobi_cost no t i j gamma Gamma inactive_indices of
           Inl e \<Rightarrow> Inl e
         | Inr new_cost \<Rightarrow> Inr (if cost > new_cost then (t, new_cost) else (t_opt, cost))))"

text \<open>
  Lines 150 to 154: the body of the fine loop, on the state
  \<open>(test, t_opt_new, cost)\<close>; \<open>t_opt_new\<close> is unbound until the first
  acceptance.
\<close>

definition fine_step ::
  "nat \<Rightarrow> nat \<Rightarrow> nat \<Rightarrow> matrix \<Rightarrow> tensor4 \<Rightarrow> nat list \<Rightarrow> real \<Rightarrow>
   nat \<times> real option \<times> real \<Rightarrow> error + nat \<times> real option \<times> real" where
  "fine_step no i j gamma Gamma inactive_indices t st =
     (case st of (test, t_opt_new, cost) \<Rightarrow>
        (case jacobi_cost no t i j gamma Gamma inactive_indices of
           Inl e \<Rightarrow> Inl e
         | Inr new_cost \<Rightarrow>
             Inr (if cost > new_cost + 1 / 10 ^ 8 then (1, Some t, new_cost)
                  else (test, t_opt_new, cost))))"

text \<open>Lines 135 to 144: the coarse scan; it returns \<open>(t_opt, cost)\<close>.\<close>

definition coarse_scan ::
  "nat \<Rightarrow> nat \<Rightarrow> nat \<Rightarrow> matrix \<Rightarrow> tensor4 \<Rightarrow> nat list \<Rightarrow> error + real \<times> real" where
  "coarse_scan no i j gamma Gamma inactive_indices =
     (case jacobi_cost no 0 i j gamma Gamma inactive_indices of
        Inl e \<Rightarrow> Inl e
      | Inr cost \<Rightarrow>
          (let grid = 1 / 100; t_opt = 0
           in fold_err (coarse_step no i j gamma Gamma inactive_indices)
                (np_arange grid pi grid) (t_opt, cost)))"

text \<open>
  Lines 145 to 149: the angles of the fine loop, from the \<open>t_opt\<close> of the
  coarse scan.
\<close>

definition fine_window :: "real \<Rightarrow> real list" where
  "fine_window t_opt =
     (let grid = 1 / 100; small_grid = 1 / 10000;
          t_opt = (if t_opt = 0 then t_opt + grid else t_opt)
      in np_arange (t_opt - grid) (t_opt + grid) small_grid)"

text \<open>\<open>jacobi_direct\<close>: \<open>Inr None\<close> is the source's \<open>return None\<close>.\<close>

definition jacobi_direct ::
  "nat \<Rightarrow> nat \<Rightarrow> nat \<Rightarrow> matrix \<Rightarrow> tensor4 \<Rightarrow> nat list \<Rightarrow> error + real option" where
  "jacobi_direct no i j gamma Gamma inactive_indices =
     (case coarse_scan no i j gamma Gamma inactive_indices of
        Inl e \<Rightarrow> Inl e
      | Inr (t_opt, cost) \<Rightarrow>
          (let test = 0
           in case fold_err (fine_step no i j gamma Gamma inactive_indices)
                     (fine_window t_opt) (test, None, cost) of
                Inl e \<Rightarrow> Inl e
              | Inr (test, t_opt_new, cost) \<Rightarrow> Inr (if test = 1 then t_opt_new else None)))"

text \<open>The angles that the fine loop of \<open>jacobi_direct\<close> examines.\<close>

definition fine_angles ::
  "nat \<Rightarrow> nat \<Rightarrow> nat \<Rightarrow> matrix \<Rightarrow> tensor4 \<Rightarrow> nat list \<Rightarrow> error + real list" where
  "fine_angles no i j gamma Gamma inactive_indices =
     (case coarse_scan no i j gamma Gamma inactive_indices of
        Inl e \<Rightarrow> Inl e
      | Inr (t_opt, cost) \<Rightarrow> Inr (fine_window t_opt))"

text \<open>
  The spec's words for the fine scan: a candidate angle replaces the current
  best only if it improves the cost by more than the tolerance \<open>1e-8\<close>.
  \<open>accepted_angles f cost ts\<close> lists the angles of \<open>ts\<close> that are accepted in
  turn, from the best cost \<open>cost\<close>, for the cost function \<open>f\<close>.
\<close>

fun accepted_angles :: "(real \<Rightarrow> real) \<Rightarrow> real \<Rightarrow> real list \<Rightarrow> real list" where
  "accepted_angles f cost [] = []"
| "accepted_angles f cost (t # ts) =
     (if cost > f t + 1 / 10 ^ 8 then t # accepted_angles f (f t) ts
      else accepted_angles f cost ts)"

section \<open>The legacy reordering (jacobi.py, lines 335 to 420)\<close>

text \<open>
  The variables that the loops of \<open>reorder\<close> update. A rotation record
  \<open>[i, j, angle]\<close> is a triple.
\<close>

record sort_state =
  S1 :: "real list"
  N1 :: "real list"
  rotations :: "(nat \<times> nat \<times> real) list"
  V :: matrix
  test :: nat

text \<open>\<open>np.matmul\<close> of two \<open>no \<times> no\<close> matrices.\<close>

definition np_matmul :: "nat \<Rightarrow> matrix \<Rightarrow> matrix \<Rightarrow> matrix" where
  "np_matmul no A B = (\<lambda>r c. \<Sum>k<no. A r k * B k c)"

text \<open>
  Lines 385 to 389 and 410 to 414: the transposition matrix \<open>V_\<close> of the
  positions \<open>p\<close> and \<open>q\<close>.
\<close>

definition transposition :: "nat \<Rightarrow> nat \<Rightarrow> matrix" where
  "transposition p q =
     (let V' = np_eye;
          V' = assign V' p p 0;
          V' = assign V' q q 0;
          V' = assign V' p q 1;
          V' = assign V' q p 1
      in V')"

text \<open>
  Lines 375 to 390 and 400 to 415: the entries at \<open>p\<close> and \<open>q\<close> of \<open>S1\<close> and of
  \<open>N1\<close> change places, a record \<open>[a, b, 0]\<close> is appended, and \<open>V\<close> is
  multiplied from the left by the transposition.
\<close>

definition swap_orbitals :: "nat \<Rightarrow> nat \<Rightarrow> nat \<Rightarrow> nat \<Rightarrow> nat \<Rightarrow> sort_state \<Rightarrow> sort_state" where
  "swap_orbitals no p q a b st =
     st\<lparr>S1 := (S1 st)[p := S1 st ! q, q := S1 st ! p],
        N1 := (N1 st)[p := N1 st ! q, q := N1 st ! p],
        rotations := rotations st @ [(a, b, 0)],
        V := np_matmul no (transposition p q) (V st)\<rparr>"

text \<open>Lines 354 to 367: the entropies, the occupations and the start values.\<close>

definition reorder_init :: "nat \<Rightarrow> matrix \<Rightarrow> sort_state" where
  "reorder_init no gamma =
     \<lparr>S1 = map (\<lambda>i. let nu = gamma (2 * i) (2 * i); nd = gamma (2 * i + 1) (2 * i + 1)
                    in shannon [1 - nu, nu, 1 - nd, nd]) [0..<no],
      N1 = map (\<lambda>i. let nu = gamma (2 * i) (2 * i); nd = gamma (2 * i + 1) (2 * i + 1)
                    in nu + nd) [0..<no],
      rotations = [],
      V = np_eye,
      test = 1\<rparr>"

text \<open>Lines 372 to 390: the body of the loop over \<open>i\<close> of one pass.\<close>

definition bubble_step :: "nat \<Rightarrow> nat \<Rightarrow> sort_state \<Rightarrow> sort_state" where
  "bubble_step no i st =
     (if S1 st ! i < S1 st ! (i + 1)
      then swap_orbitals no i (i + 1) (i + 1) (i + 2) (st\<lparr>test := 1\<rparr>)
      else st)"

text \<open>Lines 370 to 390: one pass, the body of the \<open>while\<close> loop.\<close>

definition bubble_pass :: "nat \<Rightarrow> sort_state \<Rightarrow> sort_state" where
  "bubble_pass no st = fold (bubble_step no) [0..<length (S1 st) - 1] (st\<lparr>test := 0\<rparr>)"

text \<open>
  The number of pairs of positions that are out of descending order; it is
  the measure of the \<open>while\<close> loop.
\<close>

fun unsorted_pairs :: "real list \<Rightarrow> nat" where
  "unsorted_pairs [] = 0"
| "unsorted_pairs (x # xs) = length (filter (\<lambda>y. x < y) xs) + unsorted_pairs xs"

section \<open>The fast reordering (jacobi.py, lines 244 to 304)\<close>

text \<open>
  Vectors are lists here, and the matrix \<open>P\<close> is the list of its rows.
  \<open>index_by xs inds\<close> is the indexing \<open>xs[inds]\<close> by an array of indices; an
  index outside the array raises IndexError.
\<close>

definition index_by :: "'a list \<Rightarrow> nat list \<Rightarrow> error + 'a list" where
  "index_by xs inds =
     (if \<forall>k\<in>set inds. k < length xs then Inr (map (\<lambda>k. xs ! k) inds) else Inl IndexError)"

text \<open>
  \<open>xs[k]\<close> for one integer \<open>k\<close>: a negative index counts from the end, and an
  index outside the array raises IndexError.
\<close>

definition py_index :: "'a list \<Rightarrow> int \<Rightarrow> error + 'a" where
  "py_index xs k =
     (if 0 \<le> k \<and> k < int (length xs) then Inr (xs ! nat k)
      else if k < 0 \<and> - int (length xs) \<le> k then Inr (xs ! nat (int (length xs) + k))
      else Inl IndexError)"

text \<open>
  \<open>np.argsort\<close>: the indices in ascending order of their values. NumPy does
  not fix the order of equal values; this model keeps them in index order, and
  no theorem depends on it.
\<close>

definition np_argsort :: "real list \<Rightarrow> nat list" where
  "np_argsort xs = sort_key (\<lambda>k. xs ! k) [0..<length xs]"

text \<open>\<open>np.eye(n)\<close> as rows, the product \<open>P @ s\<close>, and \<open>np.allclose\<close> with its
  default tolerances \<open>rtol = 1e-5\<close> and \<open>atol = 1e-8\<close>.\<close>

definition eye_rows :: "nat \<Rightarrow> real list list" where
  "eye_rows n = map (\<lambda>r. map (\<lambda>c. if r = c then 1 else 0) [0..<n]) [0..<n]"

definition matvec :: "real list list \<Rightarrow> real list \<Rightarrow> real list" where
  "matvec P s = map (\<lambda>row. \<Sum>k<length s. row ! k * s ! k) P"

definition np_allclose :: "real list \<Rightarrow> real list \<Rightarrow> bool" where
  "np_allclose a b = list_all2 (\<lambda>x y. \<bar>x - y\<bar> \<le> 1 / 10 ^ 8 + 1 / 10 ^ 5 * \<bar>y\<bar>) a b"

text \<open>Sequencing of steps that may raise.\<close>

definition bind_err :: "error + 'a \<Rightarrow> ('a \<Rightarrow> error + 'b) \<Rightarrow> error + 'b" where
  "bind_err x f = (case x of Inl e \<Rightarrow> Inl e | Inr v \<Rightarrow> f v)"

text \<open>
  The three lines \<open>P = P[inds]\<close>, \<open>s_val = s_val[inds]\<close>,
  \<open>occ_num = occ_num[inds]\<close> that follow each sort (the source writes them in
  two different orders; each of them raises the same error on the same
  \<open>inds\<close>).
\<close>

definition permute_all ::
  "nat list \<Rightarrow> real list list \<times> real list \<times> real list \<Rightarrow>
   error + real list list \<times> real list \<times> real list" where
  "permute_all inds st =
     (case st of (P, s_val, occ_num) \<Rightarrow>
        bind_err (index_by P inds) (\<lambda>P.
        bind_err (index_by s_val inds) (\<lambda>s_val.
        bind_err (index_by occ_num inds) (\<lambda>occ_num.
        Inr (P, s_val, occ_num)))))"

text \<open>
  Lines 261 to 269: the occupations and the entropies, computed inline as
  \<open>-np.sum(np.log(spec)*spec, axis=0)\<close>.
\<close>

definition occupations :: "nat \<Rightarrow> matrix \<Rightarrow> real list" where
  "occupations n_orb gamma =
     map (\<lambda>i. let nu = gamma (2 * i) (2 * i); nd = gamma (2 * i + 1) (2 * i + 1) in nu + nd)
       [0..<n_orb]"

definition entropies :: "nat \<Rightarrow> matrix \<Rightarrow> tensor4 \<Rightarrow> real list" where
  "entropies n_orb gamma Gamma =
     map (\<lambda>i. let nu = gamma (2 * i) (2 * i); nd = gamma (2 * i + 1) (2 * i + 1);
                  nn = Gamma i i i i;
                  spec = [1 - nu - nd + nn, nu - nn, nd - nn, nn]
              in - (\<Sum>p\<leftarrow>spec. ln p * p))
       [0..<n_orb]"

text \<open>
  Lines 300 to 304: the comparison of the warning reads
  \<open>occ_num[n_core+n_cas-1]\<close> and \<open>occ_num[n_core+n_cas]\<close>; then the assertion.
  The warning itself only logs.
\<close>

definition final_check ::
  "nat \<Rightarrow> nat \<Rightarrow> real list \<Rightarrow> real list list \<times> real list \<times> real list \<Rightarrow>
   error + real list list" where
  "final_check n_cas n_core s_val_init st =
     (case st of (P, s_val, occ_num) \<Rightarrow>
        bind_err (py_index occ_num (int (n_core + n_cas) - 1)) (\<lambda>inside.
        bind_err (py_index occ_num (int (n_core + n_cas))) (\<lambda>outside.
        if np_allclose (matvec P s_val_init) s_val then Inr P else Inl AssertionError)))"

text \<open>\<open>reorder_fast\<close>, with \<open>n_orb = len(Gamma)\<close>.\<close>

definition reorder_fast ::
  "nat \<Rightarrow> matrix \<Rightarrow> tensor4 \<Rightarrow> nat \<Rightarrow> nat \<Rightarrow> error + real list list" where
  "reorder_fast n_orb gamma Gamma n_cas n_core =
     (let occ_num = occupations n_orb gamma;
          s_val = entropies n_orb gamma Gamma;
          s_val_init = s_val;
          inds = rev (np_argsort s_val)
      in bind_err (permute_all inds (eye_rows n_orb, s_val, occ_num)) (\<lambda>(P, s_val, occ_num).
         let inds_inactive = rev (np_argsort (drop n_cas occ_num));
             inds = [0..<n_cas] @ map (\<lambda>k. n_cas + k) inds_inactive
         in bind_err (permute_all inds (P, s_val, occ_num)) (\<lambda>(P, s_val, occ_num).
            let inds_active = rev (np_argsort (take n_cas occ_num));
                inds = inds_active @ [n_cas..<n_orb]
            in bind_err (permute_all inds (P, s_val, occ_num)) (\<lambda>(P, s_val, occ_num).
               let inds = [n_cas..<n_cas + n_core] @ [0..<n_cas] @ [n_cas + n_core..<n_orb]
               in bind_err (permute_all inds (P, s_val, occ_num))
                    (final_check n_cas n_core s_val_init)))))"

text \<open>
  An input for the examples: one orbital, half filled in each spin and a
  quarter doubly occupied, so that the four entries of its spectrum are
  \<open>1/4\<close>.
\<close>

definition gamma_half :: matrix where
  "gamma_half = (\<lambda>r c. if r = c then 1 / 2 else 0)"

definition Gamma_quarter :: tensor4 where
  "Gamma_quarter = (\<lambda>a b c d. 1 / 4)"

section \<open>Theorems\<close>

subsection \<open>The loops of the two-orbital transform, entry by entry\<close>

lemma assign_apply: "assign M r c v x y = (if x = r \<and> y = c then v else M x y)"
  by (simp add: assign_def)

lemma accumulate_apply:
  "accumulate U gm a b m n g r c =
     (if r = 2 * a \<and> c = 2 * b then g r c + U a m * U b n * gm (2 * m) (2 * n)
      else if r = 2 * a + 1 \<and> c = 2 * b + 1 then g r c + U a m * U b n * gm (2 * m + 1) (2 * n + 1)
      else g r c)"
  by (simp add: accumulate_def assign_apply Let_def)

lemma fold_accumulate_n:
  "fold (\<lambda>n. accumulate U gm a b m n) ns g r c =
     (if r = 2 * a \<and> c = 2 * b then g r c + (\<Sum>n\<leftarrow>ns. U a m * U b n * gm (2 * m) (2 * n))
      else if r = 2 * a + 1 \<and> c = 2 * b + 1
        then g r c + (\<Sum>n\<leftarrow>ns. U a m * U b n * gm (2 * m + 1) (2 * n + 1))
      else g r c)"
  by (induction ns arbitrary: g) (simp_all add: accumulate_apply)

lemma fold_accumulate_m:
  "fold (\<lambda>m. fold (\<lambda>n. accumulate U gm a b m n) ns) ms g r c =
     (if r = 2 * a \<and> c = 2 * b
        then g r c + (\<Sum>m\<leftarrow>ms. \<Sum>n\<leftarrow>ns. U a m * U b n * gm (2 * m) (2 * n))
      else if r = 2 * a + 1 \<and> c = 2 * b + 1
        then g r c + (\<Sum>m\<leftarrow>ms. \<Sum>n\<leftarrow>ns. U a m * U b n * gm (2 * m + 1) (2 * n + 1))
      else g r c)"
  by (induction ms arbitrary: g) (simp_all add: fold_accumulate_n)

lemma update_block_apply:
  "update_block U gm i j a b g r c =
     (if r = 2 * a \<and> c = 2 * b then block_value U gm i j a b 0 (g r c)
      else if r = 2 * a + 1 \<and> c = 2 * b + 1 then block_value U gm i j a b 1 (g r c)
      else g r c)"
  by (auto simp: update_block_def block_value_def fold_accumulate_m assign_apply Let_def
      split: prod.splits)

lemma update_row_apply:
  "update_row U gm i j n a g r c =
     (if r = 2 * a \<and> even c \<and> c div 2 < n then block_value U gm i j a (c div 2) 0 (g r c)
      else if r = 2 * a + 1 \<and> odd c \<and> c div 2 < n then block_value U gm i j a (c div 2) 1 (g r c)
      else g r c)"
  unfolding update_row_def
proof (induction n)
  case 0
  show ?case by simp
next
  case (Suc n)
  have "fold (\<lambda>b. update_block U gm i j a b) [0..<Suc n] g r c =
        update_block U gm i j a n (fold (\<lambda>b. update_block U gm i j a b) [0..<n] g) r c"
    by simp
  also have "\<dots> = (if r = 2 * a \<and> even c \<and> c div 2 < Suc n
        then block_value U gm i j a (c div 2) 0 (g r c)
      else if r = 2 * a + 1 \<and> odd c \<and> c div 2 < Suc n
        then block_value U gm i j a (c div 2) 1 (g r c)
      else g r c)"
    apply (subst update_block_apply)
    apply (simp only: Suc)
    apply (auto simp: less_Suc_eq elim!: oddE)
    done
  finally show ?case .
qed

lemma fold_update_row:
  "fold (update_row U gm i j n) [0..<k] g r c =
     (if even r \<and> even c \<and> r div 2 < k \<and> c div 2 < n
        then block_value U gm i j (r div 2) (c div 2) 0 (g r c)
      else if odd r \<and> odd c \<and> r div 2 < k \<and> c div 2 < n
        then block_value U gm i j (r div 2) (c div 2) 1 (g r c)
      else g r c)"
proof (induction k)
  case 0
  show ?case by simp
next
  case (Suc k)
  have "fold (update_row U gm i j n) [0..<Suc k] g r c =
        update_row U gm i j n k (fold (update_row U gm i j n) [0..<k] g) r c"
    by simp
  also have "\<dots> = (if even r \<and> even c \<and> r div 2 < Suc k \<and> c div 2 < n
        then block_value U gm i j (r div 2) (c div 2) 0 (g r c)
      else if odd r \<and> odd c \<and> r div 2 < Suc k \<and> c div 2 < n
        then block_value U gm i j (r div 2) (c div 2) 1 (g r c)
      else g r c)"
    apply (subst update_row_apply)
    apply (simp only: Suc)
    apply (auto simp: less_Suc_eq elim!: oddE)
    done
  finally show ?case .
qed

subsection \<open>Contractions with the rotation matrix\<close>

lemma rotation_U1_apply:
  "rotation_U1 i j t x a =
     (if x = j then (if a = j then cos t else if a = i then - sin t else 0)
      else if x = i then (if a = j then sin t else if a = i then cos t else 0)
      else if x = a then 1 else 0)"
  by (simp add: rotation_U1_def assign_apply np_eye_def Let_def)

lemma rot_apply_closed:
  assumes "i \<noteq> j" "i < no" "j < no"
  shows "rot_apply no i j t h x =
     (if x = i then cos t * h i + sin t * h j
      else if x = j then - sin t * h i + cos t * h j
      else if x < no then h x else 0)"
proof -
  have fin: "finite {..<no}" by simp
  show ?thesis
  proof (cases "x = i \<or> x = j")
    case True
    have sub: "{i, j} \<subseteq> {..<no}" using assms by simp
    have "rot_apply no i j t h x = (\<Sum>a\<in>{i, j}. rotation_U1 i j t x a * h a)"
      unfolding rot_apply_def
      by (rule sum.mono_neutral_right [OF fin sub]) (use True in \<open>auto simp: rotation_U1_apply\<close>)
    then show ?thesis using True assms by (auto simp: rotation_U1_apply)
  next
    case False
    have "rot_apply no i j t h x = (\<Sum>a<no. if x = a then h a else 0)"
      unfolding rot_apply_def using False
      by (intro sum.cong) (auto simp: rotation_U1_apply)
    then show ?thesis using False by simp
  qed
qed

lemma rot_apply_compose:
  assumes "i \<noteq> j" "i < no" "j < no"
  shows "rot_apply no i j t2 (rot_apply no i j t1 h) x = rot_apply no i j (t1 + t2) h x"
  using assms
  by (simp add: rot_apply_closed cos_add sin_add algebra_simps)

lemma rot_apply_zero:
  assumes "i < no" "j < no"
  shows "rot_apply no i j 0 h x = (if x < no then h x else 0)"
proof -
  have "rotation_U1 i j 0 = np_eye"
    by (intro ext) (simp add: rotation_U1_apply np_eye_def)
  moreover have "(\<Sum>a<no. np_eye x a * h a) = (\<Sum>a<no. if x = a then h a else 0)"
    by (intro sum.cong) (auto simp: np_eye_def)
  ultimately show ?thesis by (simp add: rot_apply_def)
qed

lemma rot_apply_swap:
  "rot_apply no i j t (\<lambda>a. rot_apply no' i' j' t' (\<lambda>b. F a b) y) x =
   rot_apply no' i' j' t' (\<lambda>b. rot_apply no i j t (\<lambda>a. F a b) x) y"
  unfolding rot_apply_def
  apply (simp add: sum_distrib_left)
  apply (subst sum.swap)
  apply (simp add: mult_ac)
  done



lemma einsum_Gamma_rot:
  "einsum_Gamma no (rotation_U1 i j t) G =
     rot_index1 no i j t (rot_index2 no i j t (rot_index3 no i j t (rot_index4 no i j t G)))"
  unfolding einsum_Gamma_def rot_apply_def rot_index1_def rot_index2_def rot_index3_def
    rot_index4_def
  by (intro ext) (simp add: sum_distrib_left mult.assoc)

lemma rot_index_commute:
  "rot_index2 no i j t' (rot_index1 no i j t G) = rot_index1 no i j t (rot_index2 no i j t' G)"
  "rot_index3 no i j t' (rot_index1 no i j t G) = rot_index1 no i j t (rot_index3 no i j t' G)"
  "rot_index4 no i j t' (rot_index1 no i j t G) = rot_index1 no i j t (rot_index4 no i j t' G)"
  "rot_index3 no i j t' (rot_index2 no i j t G) = rot_index2 no i j t (rot_index3 no i j t' G)"
  "rot_index4 no i j t' (rot_index2 no i j t G) = rot_index2 no i j t (rot_index4 no i j t' G)"
  "rot_index4 no i j t' (rot_index3 no i j t G) = rot_index3 no i j t (rot_index4 no i j t' G)"
  unfolding rot_index1_def rot_index2_def rot_index3_def rot_index4_def
  by (intro ext, rule rot_apply_swap)+

lemma rot_index_compose:
  assumes "i \<noteq> j" "i < no" "j < no"
  shows "rot_index1 no i j t2 (rot_index1 no i j t1 G) = rot_index1 no i j (t1 + t2) G"
    and "rot_index2 no i j t2 (rot_index2 no i j t1 G) = rot_index2 no i j (t1 + t2) G"
    and "rot_index3 no i j t2 (rot_index3 no i j t1 G) = rot_index3 no i j (t1 + t2) G"
    and "rot_index4 no i j t2 (rot_index4 no i j t1 G) = rot_index4 no i j (t1 + t2) G"
  unfolding rot_index1_def rot_index2_def rot_index3_def rot_index4_def
  by (intro ext, rule rot_apply_compose [OF assms])+

lemma einsum_Gamma_compose:
  assumes "i \<noteq> j" "i < no" "j < no"
  shows "einsum_Gamma no (rotation_U1 i j t2) (einsum_Gamma no (rotation_U1 i j t1) G) =
         einsum_Gamma no (rotation_U1 i j (t1 + t2)) G"
  by (simp only: einsum_Gamma_rot rot_index_commute rot_index_compose [OF assms])

lemma einsum_Gamma_zero:
  assumes "i < no" "j < no" "a < no" "b < no" "c < no" "d < no"
  shows "einsum_Gamma no (rotation_U1 i j 0) G a b c d = G a b c d"
  using assms
  by (simp add: einsum_Gamma_rot rot_index1_def rot_index2_def rot_index3_def rot_index4_def
      rot_apply_zero)

lemma mixing_list_distinct:
  assumes "i \<noteq> j"
  shows "mixing_list a i j = (if a = i \<or> a = j then (1, [i, j]) else (0, [a]))"
  using assms by (auto simp: mixing_list_def)

lemma block_value_rot:
  assumes "i \<noteq> j" "i < no" "j < no" "a < no" "b < no"
  shows "block_value (rotation_U1 i j t) gm i j a b s 0 =
         rot_row no i j t (rot_col no i j t (spin_block s s gm)) a b"
  using assms
  by (auto simp: block_value_def mixing_list_distinct rot_row_def rot_col_def spin_block_def
      rot_apply_closed rotation_U1_apply algebra_simps)

lemma jacobi_transform_gamma:
  assumes "i \<noteq> j" "i < no" "j < no"
    and "jacobi_transform no gm G i j t = Inr (g', G')"
  shows "g' r c =
     (if r mod 2 = c mod 2
      then rot_row no i j t (rot_col no i j t (spin_block (r mod 2) (r mod 2) gm)) (r div 2) (c div 2)
      else 0)"
proof -
  have g': "g' = fold (update_row (rotation_U1 i j t) gm i j no) [0..<no] np_zeros"
    using assms by (simp add: jacobi_transform_def Let_def)
  have out: "rot_row no i j t (rot_col no i j t B) a b = 0" if "\<not> (a < no \<and> b < no)" for B a b
    using that assms(1-3) by (auto simp: rot_row_def rot_col_def rot_apply_closed)
  show ?thesis
  proof (cases "r div 2 < no \<and> c div 2 < no")
    case True
    then show ?thesis
      using block_value_rot [OF assms(1-3), of "r div 2" "c div 2" t gm]
      by (auto simp: g' fold_update_row np_zeros_def odd_iff_mod_2_eq_one even_iff_mod_2_eq_zero)
  next
    case False
    then show ?thesis
      using out [of "r div 2" "c div 2"]
      by (auto simp: g' fold_update_row np_zeros_def)
  qed
qed

lemma rot_matrix_commute:
  "rot_col no i j t' (rot_row no i j t B) = rot_row no i j t (rot_col no i j t' B)"
  unfolding rot_row_def rot_col_def
  by (intro ext, rule rot_apply_swap)

lemma rot_matrix_compose:
  assumes "i \<noteq> j" "i < no" "j < no"
  shows "rot_row no i j t2 (rot_row no i j t1 B) = rot_row no i j (t1 + t2) B"
    and "rot_col no i j t2 (rot_col no i j t1 B) = rot_col no i j (t1 + t2) B"
  unfolding rot_row_def rot_col_def
  by (intro ext, rule rot_apply_compose [OF assms])+

lemma sum_even_odd: "(\<Sum>x<2 * n. f x) = (\<Sum>m<n. f (2 * m) + f (2 * m + 1))" for f :: "nat \<Rightarrow> real"
  by (induction n) simp_all

lemma kron_contract:
  "(\<Sum>x<2 * no. np_kron_eye2 U p x * h x) = (\<Sum>m<no. U (p div 2) m * h (2 * m + p mod 2))"
proof -
  have "p mod 2 = 0 \<or> p mod 2 = 1" by auto
  then show ?thesis
    by (auto simp: sum_even_odd np_kron_eye2_def np_eye_def intro!: sum.cong)
qed

lemma einsum_gamma_kron:
  "einsum_gamma (2 * no) (np_kron_eye2 (rotation_U1 i j t)) gm p q =
     rot_row no i j t (rot_col no i j t (spin_block (p mod 2) (q mod 2) gm)) (p div 2) (q div 2)"
proof -
  let ?U = "np_kron_eye2 (rotation_U1 i j t)"
  have "einsum_gamma (2 * no) ?U gm p q = (\<Sum>a<2 * no. ?U p a * (\<Sum>b<2 * no. ?U q b * gm a b))"
    by (simp add: einsum_gamma_def sum_distrib_left mult.assoc)
  also have "\<dots> = (\<Sum>a<2 * no. ?U p a *
      (\<Sum>n<no. rotation_U1 i j t (q div 2) n * gm a (2 * n + q mod 2)))"
    by (simp only: kron_contract)
  also have "\<dots> = (\<Sum>m<no. rotation_U1 i j t (p div 2) m *
      (\<Sum>n<no. rotation_U1 i j t (q div 2) n * gm (2 * m + p mod 2) (2 * n + q mod 2)))"
    by (rule kron_contract)
  finally show ?thesis
    by (simp add: rot_row_def rot_col_def rot_apply_def spin_block_def)
qed

lemma rot_mixed_zero:
  assumes "spin_blocked no gm" "s \<noteq> s'" "s < 2" "s' < 2"
  shows "rot_row no i j t (rot_col no i j t (spin_block s s' gm)) a b = 0"
proof -
  have "spin_block s s' gm m n = 0" if "m < no" "n < no" for m n
  proof -
    from assms(2-4) have "(s = 0 \<and> s' = 1) \<or> (s = 1 \<and> s' = 0)" by auto
    with assms(1) that show ?thesis by (auto simp: spin_blocked_def spin_block_def)
  qed
  then show ?thesis by (simp add: rot_row_def rot_col_def rot_apply_def)
qed

lemma jacobi_transform_succeeds:
  assumes "i < no" "j < no"
  shows "\<exists>g' G'. jacobi_transform no gm G i j t = Inr (g', G')"
  using assms by (simp add: jacobi_transform_def Let_def)

lemma spin_blocked_eye: "spin_blocked no np_eye"
  by (simp add: spin_blocked_def np_eye_def) presburger

subsection \<open>The scans of the angle search\<close>

lemma fold_err_pure:
  assumes "\<And>x s. x \<in> set xs \<Longrightarrow> f x s = Inr (g x s)"
  shows "fold_err f xs s = Inr (fold g xs s)"
  using assms by (induction xs arbitrary: s) simp_all

lemma jacobi_cost_ok:
  assumes "\<not> ((i \<in> set inact \<or> j \<in> set inact) \<and> \<not> (i < no \<and> j < no))"
  shows "jacobi_cost no t i j g G inact = Inr (jacobi_cost_value t i j g G inact)"
  using assms by (simp add: jacobi_cost_def)

lemma jacobi_cost_error:
  assumes "(i \<in> set inact \<or> j \<in> set inact) \<and> \<not> (i < no \<and> j < no)"
  shows "jacobi_cost no t i j g G inact = Inl IndexError"
  using assms by (simp add: jacobi_cost_def)

lemma coarse_scan_ok:
  assumes "\<not> ((i \<in> set inact \<or> j \<in> set inact) \<and> \<not> (i < no \<and> j < no))"
  shows "\<exists>t_opt cost. coarse_scan no i j g G inact = Inr (t_opt, cost)"
proof -
  let ?g = "\<lambda>t (st :: real \<times> real). case st of (t_opt, cost) \<Rightarrow>
     if cost > jacobi_cost_value t i j g G inact then (t, jacobi_cost_value t i j g G inact)
     else (t_opt, cost)"
  have "coarse_step no i j g G inact t st = Inr (?g t st)" for t st
    by (simp add: coarse_step_def jacobi_cost_ok [OF assms] split: prod.splits)
  then have "fold_err (coarse_step no i j g G inact) ts st = Inr (fold ?g ts st)" for ts st
    by (intro fold_err_pure)
  then show ?thesis
    by (simp add: coarse_scan_def jacobi_cost_ok [OF assms] Let_def)
qed

lemma coarse_scan_error:
  assumes "(i \<in> set inact \<or> j \<in> set inact) \<and> \<not> (i < no \<and> j < no)"
  shows "coarse_scan no i j g G inact = Inl IndexError"
  by (simp add: coarse_scan_def jacobi_cost_error [OF assms])

lemma coarse_scan_in_range:
  assumes "coarse_scan no i j g G inact = Inr r"
  shows "\<not> ((i \<in> set inact \<or> j \<in> set inact) \<and> \<not> (i < no \<and> j < no))"
  using assms coarse_scan_error [of i inact j no g G] by auto

lemma accepted_angles_Nil:
  "accepted_angles f cost ts = [] \<longleftrightarrow> (\<forall>t\<in>set ts. \<not> cost > f t + 1 / 10 ^ 8)"
  by (induction ts) simp_all

lemma fold_fine:
  "fold (\<lambda>t (st :: nat \<times> real option \<times> real). case st of (flag, t_opt_new, cost) \<Rightarrow>
       if cost > f t + 1 / 10 ^ 8 then (1, Some t, f t) else (flag, t_opt_new, cost))
     ts (flag, tn, cost) =
   (if accepted_angles f cost ts = [] then (flag, tn, cost)
    else (1, Some (last (accepted_angles f cost ts)),
          f (last (accepted_angles f cost ts))))"
  by (induction ts arbitrary: flag tn cost) simp_all

lemma jacobi_direct_scan:
  assumes "coarse_scan no i j gamma Gamma inactive_indices = Inr (t_opt, cost)"
  shows "jacobi_direct no i j gamma Gamma inactive_indices =
           Inr (if accepted_angles (\<lambda>t. jacobi_cost_value t i j gamma Gamma inactive_indices)
                     cost (fine_window t_opt) = []
                then None
                else Some (last (accepted_angles
                       (\<lambda>t. jacobi_cost_value t i j gamma Gamma inactive_indices)
                       cost (fine_window t_opt)))) \<and>
         (accepted_angles (\<lambda>t. jacobi_cost_value t i j gamma Gamma inactive_indices)
             cost (fine_window t_opt) = [] \<longleftrightarrow>
          (\<forall>t\<in>set (fine_window t_opt).
             \<not> cost > jacobi_cost_value t i j gamma Gamma inactive_indices + 1 / 10 ^ 8))"
proof -
  note ok = coarse_scan_in_range [OF assms]
  let ?f = "\<lambda>t. jacobi_cost_value t i j gamma Gamma inactive_indices"
  let ?g = "\<lambda>t (st :: nat \<times> real option \<times> real). case st of (flag, t_opt_new, cost) \<Rightarrow>
       if cost > ?f t + 1 / 10 ^ 8 then (1, Some t, ?f t) else (flag, t_opt_new, cost)"
  have "fine_step no i j gamma Gamma inactive_indices t st = Inr (?g t st)" for t st
    by (simp add: fine_step_def jacobi_cost_ok [OF ok] split: prod.splits)
  then have pure: "fold_err (fine_step no i j gamma Gamma inactive_indices) ts st =
      Inr (fold ?g ts st)" for ts st
    by (intro fold_err_pure)
  let ?acc = "accepted_angles ?f cost (fine_window t_opt)"
  have run: "fold_err (fine_step no i j gamma Gamma inactive_indices) (fine_window t_opt)
      (0, None, cost) =
      Inr (if ?acc = [] then (0, None, cost) else (1, Some (last ?acc), ?f (last ?acc)))"
    unfolding pure fold_fine ..
  have "jacobi_direct no i j gamma Gamma inactive_indices =
           Inr (if ?acc = [] then None else Some (last ?acc))"
    by (simp add: jacobi_direct_def assms run)
  moreover have "?acc = [] \<longleftrightarrow>
      (\<forall>t\<in>set (fine_window t_opt). \<not> cost > ?f t + 1 / 10 ^ 8)"
    by (rule accepted_angles_Nil)
  ultimately show ?thesis by blast
qed

lemma fold_coarse_keep:
  assumes "\<forall>t\<in>set ts. \<not> cost > f t"
  shows "fold (\<lambda>t (st :: real \<times> real). case st of (t_opt, cost) \<Rightarrow>
       if cost > f t then (t, f t) else (t_opt, cost)) ts (t_opt, cost) = (t_opt, cost)"
  using assms by (induction ts) simp_all

lemma coarse_scan_no_improvement:
  assumes ok: "\<not> ((i \<in> set inact \<or> j \<in> set inact) \<and> \<not> (i < no \<and> j < no))"
    and flat: "\<forall>t. \<not> jacobi_cost_value 0 i j g G inact > jacobi_cost_value t i j g G inact"
  shows "coarse_scan no i j g G inact = Inr (0, jacobi_cost_value 0 i j g G inact)"
proof -
  let ?f = "\<lambda>t. jacobi_cost_value t i j g G inact"
  let ?g = "\<lambda>t (st :: real \<times> real). case st of (t_opt, cost) \<Rightarrow>
     if cost > ?f t then (t, ?f t) else (t_opt, cost)"
  have "coarse_step no i j g G inact t st = Inr (?g t st)" for t st
    by (simp add: coarse_step_def jacobi_cost_ok [OF ok] split: prod.splits)
  then have pure: "fold_err (coarse_step no i j g G inact) ts st = Inr (fold ?g ts st)" for ts st
    by (intro fold_err_pure)
  have keep: "fold ?g ts (0, ?f 0) = (0, ?f 0)" for ts
    by (rule fold_coarse_keep) (use flat in blast)
  show ?thesis
    unfolding coarse_scan_def jacobi_cost_ok [OF ok] Let_def sum.case pure keep ..
qed

lemma vacuum_cost: "jacobi_cost_value t 0 1 np_zeros Gamma_zero [0, 1] = 0"
  by (simp add: jacobi_cost_value_def rotated_spectrum_def np_zeros_def Gamma_zero_def
      shannon_def Let_def)

lemma vacuum_coarse_scan: "coarse_scan 2 0 1 np_zeros Gamma_zero [0, 1] = Inr (0, 0)"
proof -
  have ok: "\<not> ((0 \<in> set [0, 1 :: nat] \<or> 1 \<in> set [0, 1 :: nat]) \<and> \<not> (0 < (2 :: nat) \<and> 1 < (2 :: nat)))"
    by simp
  have flat: "\<forall>t. \<not> jacobi_cost_value 0 0 1 np_zeros Gamma_zero [0, 1] >
      jacobi_cost_value t 0 1 np_zeros Gamma_zero [0, 1]"
    unfolding vacuum_cost by simp
  show ?thesis
    using coarse_scan_no_improvement [OF ok flat] unfolding vacuum_cost .
qed

lemma fine_window_zero: "fine_window 0 = map (\<lambda>k. real k / 10000) [0..<200]"
  by (simp add: fine_window_def np_arange_def Let_def)

subsection \<open>The passes of the legacy reordering\<close>

lemma unsorted_pairs_swap:
  assumes "a < b"
  shows "unsorted_pairs (as @ a # b # bs) = Suc (unsorted_pairs (as @ b # a # bs))"
  using assms by (induction as) auto

lemma swap_in_append:
  "(as @ a # b # bs)[length as := y, Suc (length as) := z] = as @ y # z # bs"
  by (simp add: list_update_append)

lemma swap_adjacent_conv:
  assumes "Suc i < length xs"
  shows "xs = take i xs @ xs ! i # xs ! Suc i # drop (Suc (Suc i)) xs"
    and "xs[i := xs ! Suc i, Suc i := xs ! i] =
         take i xs @ xs ! Suc i # xs ! i # drop (Suc (Suc i)) xs"
proof -
  have i: "i < length xs" using assms by simp
  have d: "drop i xs = xs ! i # xs ! Suc i # drop (Suc (Suc i)) xs"
    using assms i by (simp add: Cons_nth_drop_Suc)
  show 1: "xs = take i xs @ xs ! i # xs ! Suc i # drop (Suc (Suc i)) xs"
    using append_take_drop_id [of i xs] d by simp
  have l: "length (take i xs) = i" using i by simp
  show "xs[i := xs ! Suc i, Suc i := xs ! i] =
         take i xs @ xs ! Suc i # xs ! i # drop (Suc (Suc i)) xs"
    using swap_in_append [of "take i xs" "xs ! i" "xs ! Suc i" "drop (Suc (Suc i)) xs"
        "xs ! Suc i" "xs ! i"]
    unfolding l 1 [symmetric] .
qed

lemma unsorted_pairs_update:
  assumes "Suc i < length xs" "xs ! i < xs ! Suc i"
  shows "unsorted_pairs xs = Suc (unsorted_pairs (xs[i := xs ! Suc i, Suc i := xs ! i]))"
  using swap_adjacent_conv [OF assms(1)] unsorted_pairs_swap [OF assms(2)] by metis

lemma unsorted_pairs_bound: "2 * unsorted_pairs xs \<le> length xs * (length xs - 1)"
proof (induction xs)
  case Nil
  show ?case by simp
next
  case (Cons x xs)
  have "2 * unsorted_pairs (x # xs) =
      2 * length (filter (\<lambda>y. x < y) xs) + 2 * unsorted_pairs xs"
    by simp
  also have "\<dots> \<le> 2 * length xs + length xs * (length xs - 1)"
    by (rule add_mono) (use Cons in simp_all)
  also have "\<dots> = length (x # xs) * (length (x # xs) - 1)"
    by (cases "length xs") simp_all
  finally show ?case .
qed

lemma swap_orbitals_simps:
  "S1 (swap_orbitals no p q a b st) = (S1 st)[p := S1 st ! q, q := S1 st ! p]"
  "rotations (swap_orbitals no p q a b st) = rotations st @ [(a, b, 0)]"
  "test (swap_orbitals no p q a b st) = test st"
  by (simp_all add: swap_orbitals_def)

text \<open>What a run of steps keeps: pairs out of order plus records written.\<close>

lemma bubble_step_count:
  assumes "Suc i < length (S1 st)"
  shows "length (S1 (bubble_step no i st)) = length (S1 st)"
    and "unsorted_pairs (S1 (bubble_step no i st)) + length (rotations (bubble_step no i st)) =
         unsorted_pairs (S1 st) + length (rotations st)"
    and "length (rotations st) \<le> length (rotations (bubble_step no i st))"
    and "test (bubble_step no i st) = 1 \<longleftrightarrow>
         test st = 1 \<or> length (rotations st) < length (rotations (bubble_step no i st))"
    and "set (rotations (bubble_step no i st)) \<subseteq> set (rotations st) \<union> {r. snd (snd r) = 0}"
  using assms unsorted_pairs_update [of i "S1 st"]
  by (auto simp: bubble_step_def swap_orbitals_simps)

lemma fold_bubble_step_count:
  assumes "\<forall>i\<in>set is. Suc i < length (S1 st)"
  shows "length (S1 (fold (bubble_step no) is st)) = length (S1 st) \<and>
         unsorted_pairs (S1 (fold (bubble_step no) is st)) +
           length (rotations (fold (bubble_step no) is st)) =
         unsorted_pairs (S1 st) + length (rotations st) \<and>
         length (rotations st) \<le> length (rotations (fold (bubble_step no) is st)) \<and>
         (test (fold (bubble_step no) is st) = 1 \<longleftrightarrow>
          test st = 1 \<or> length (rotations st) < length (rotations (fold (bubble_step no) is st))) \<and>
         set (rotations (fold (bubble_step no) is st)) \<subseteq> set (rotations st) \<union> {r. snd (snd r) = 0}"
  using assms
proof (induction "is" arbitrary: st)
  case Nil
  show ?case by simp
next
  case (Cons i "is")
  have i: "Suc i < length (S1 st)" using Cons.prems by simp
  note s = bubble_step_count [OF i, of no]
  have "\<forall>k\<in>set is. Suc k < length (S1 (bubble_step no i st))"
    using Cons.prems s(1) by simp
  from Cons.IH [OF this] s show ?case
    by (simp del: One_nat_def) (use s in auto)
qed

lemma bubble_pass_count:
  "length (S1 (bubble_pass no st)) = length (S1 st)"
  "unsorted_pairs (S1 (bubble_pass no st)) + length (rotations (bubble_pass no st)) =
     unsorted_pairs (S1 st) + length (rotations st)"
  "test (bubble_pass no st) = 1 \<longleftrightarrow> length (rotations st) < length (rotations (bubble_pass no st))"
  "set (rotations (bubble_pass no st)) \<subseteq> set (rotations st) \<union> {r. snd (snd r) = 0}"
  "length (rotations st) \<le> length (rotations (bubble_pass no st))"
proof -
  have "\<forall>i\<in>set [0..<length (S1 st) - 1]. Suc i < length (S1 (st\<lparr>test := 0\<rparr>))"
    by auto
  from fold_bubble_step_count [OF this, of no]
  show "length (S1 (bubble_pass no st)) = length (S1 st)"
    "unsorted_pairs (S1 (bubble_pass no st)) + length (rotations (bubble_pass no st)) =
     unsorted_pairs (S1 st) + length (rotations st)"
    "test (bubble_pass no st) = 1 \<longleftrightarrow> length (rotations st) < length (rotations (bubble_pass no st))"
    "set (rotations (bubble_pass no st)) \<subseteq> set (rotations st) \<union> {r. snd (snd r) = 0}"
    "length (rotations st) \<le> length (rotations (bubble_pass no st))"
    by (simp_all add: bubble_pass_def)
qed

text \<open>
  Lines 369 to 390: the loop \<open>while test == 1\<close>. It terminates: a pass that
  sets \<open>test\<close> has swapped, and every swap takes one pair out of the pairs
  that are out of order.
\<close>

function bubble_loop :: "nat \<Rightarrow> sort_state \<Rightarrow> sort_state" where
  "bubble_loop no st = (if test st = 1 then bubble_loop no (bubble_pass no st) else st)"
  by pat_completeness auto
termination
proof (relation "measure (\<lambda>(no, st). 2 * unsorted_pairs (S1 st) + (if test st = 1 then 1 else 0))")
  show "wf (measure (\<lambda>(no, st). 2 * unsorted_pairs (S1 st) + (if test st = 1 then 1 else 0)))"
    by simp
next
  fix no :: nat and st :: sort_state
  assume "test st = 1"
  then show "((no, bubble_pass no st), (no, st)) \<in>
    measure (\<lambda>(no, st). 2 * unsorted_pairs (S1 st) + (if test st = 1 then 1 else 0))"
    using bubble_pass_count(2,3,5) [where no = no and st = st] by auto
qed

declare bubble_loop.simps [simp del]

lemma bubble_loop_count:
  "unsorted_pairs (S1 (bubble_loop no st)) + length (rotations (bubble_loop no st)) =
     unsorted_pairs (S1 st) + length (rotations st) \<and>
   length (S1 (bubble_loop no st)) = length (S1 st) \<and>
   set (rotations (bubble_loop no st)) \<subseteq> set (rotations st) \<union> {r. snd (snd r) = 0} \<and>
   test (bubble_loop no st) \<noteq> 1"
proof (induction no st rule: bubble_loop.induct)
  case (1 no st)
  show ?case
  proof (cases "test st = 1")
    case True
    have e: "bubble_loop no st = bubble_loop no (bubble_pass no st)"
      using True by (subst bubble_loop.simps) simp
    from "1.IH" [OF True] bubble_pass_count(1,2,4) [where no = no and st = st]
    show ?thesis unfolding e by auto
  next
    case False
    then have "bubble_loop no st = st" by (subst bubble_loop.simps) simp
    with False show ?thesis by simp
  qed
qed

text \<open>
  Lines 394 to 415: the body of the loop over \<open>j\<close>, on the state and
  \<open>n_closed\<close>; an orbital with occupation above 1 is moved to the front by
  \<open>j\<close> adjacent swaps.
\<close>

definition closed_step :: "nat \<Rightarrow> nat \<Rightarrow> sort_state \<times> nat \<Rightarrow> sort_state \<times> nat" where
  "closed_step no j sn =
     (case sn of (st, n_closed) \<Rightarrow>
        if N1 st ! j > 1
        then (fold (\<lambda>i. swap_orbitals no (j - 1 - i) (j - i) (j - i) (j - i + 1)) [0..<j] st,
              n_closed + 1)
        else (st, n_closed))"

text \<open>\<open>reorder\<close>: it returns the records, \<open>n_closed\<close> and \<open>V\<close>.\<close>

definition reorder :: "nat \<Rightarrow> matrix \<Rightarrow> nat \<Rightarrow> (nat \<times> nat \<times> real) list \<times> nat \<times> matrix" where
  "reorder no gamma N_cas =
     (let st = bubble_loop no (reorder_init no gamma);
          (st, n_closed) = fold (closed_step no) [N_cas..<length (S1 st)] (st, 0)
      in (rotations st, n_closed, V st))"


subsection \<open>The steps of the fast reordering\<close>

lemma bind_err_simps:
  "bind_err (Inl e) f = Inl e"
  "bind_err (Inr v) f = f v"
  by (simp_all add: bind_err_def)

lemma index_by_cases:
  "index_by xs inds = Inl IndexError \<or>
   (\<exists>ys. index_by xs inds = Inr ys \<and> length ys = length inds)"
  by (simp add: index_by_def)

lemma permute_all_cases:
  "permute_all inds st = Inl IndexError \<or>
   (\<exists>P s_val occ_num. permute_all inds st = Inr (P, s_val, occ_num) \<and>
      length P = length inds \<and> length s_val = length inds \<and> length occ_num = length inds)"
proof -
  obtain P s oc where st: "st = (P, s, oc)" by (cases st) auto
  show ?thesis
    using index_by_cases [of P inds] index_by_cases [of s inds] index_by_cases [of oc inds]
    by (auto simp: st permute_all_def bind_err_simps)
qed

lemma final_check_boundary:
  assumes "length occ_num = n_core + n_cas"
  shows "final_check n_cas n_core s_init (P, s_val, occ_num) = Inl IndexError"
proof -
  have "py_index occ_num (int (n_core + n_cas)) = Inl IndexError"
    using assms by (simp add: py_index_def Let_def)
  moreover have "py_index occ_num (int (n_core + n_cas) - 1) = Inl IndexError \<or>
      (\<exists>v. py_index occ_num (int (n_core + n_cas) - 1) = Inr v)"
    by (cases "py_index occ_num (int (n_core + n_cas) - 1)") (auto simp: py_index_def Let_def split: if_splits)
  ultimately show ?thesis
    by (auto simp: final_check_def bind_err_simps)
qed

lemma perm_length:
  assumes "distinct p" "set p = {0..<n}"
  shows "length p = n"
  using distinct_card [OF assms(1)] assms(2) by simp

lemma argsort_perm:
  "distinct (rev (np_argsort xs))" "set (rev (np_argsort xs)) = {0..<length xs}"
  by (simp_all add: np_argsort_def)

lemma index_by_perm:
  assumes "length xs = n" "distinct p" "set p = {0..<n}" "set inds = {0..<n}"
  shows "index_by (map ((!) xs) p) inds = Inr (map ((!) xs) (map ((!) p) inds))"
proof -
  have l: "length p = n" by (rule perm_length [OF assms(2,3)])
  have "\<forall>k\<in>set inds. k < length (map ((!) xs) p)" using assms(4) l by simp
  moreover have "map (\<lambda>k. map ((!) xs) p ! k) inds = map ((!) xs) (map ((!) p) inds)"
    using assms(4) l by simp
  ultimately show ?thesis by (simp add: index_by_def)
qed

lemma compose_perm:
  assumes "distinct p" "set p = {0..<n}" "distinct inds" "set inds = {0..<n}"
  shows "distinct (map ((!) p) inds)" "set (map ((!) p) inds) = {0..<n}"
proof -
  have l: "length p = n" by (rule perm_length [OF assms(1,2)])
  have "inj_on ((!) p) (set inds)"
    using assms(1,4) l by (intro inj_on_nth) auto
  then show "distinct (map ((!) p) inds)" using assms(3) by (simp add: distinct_map)
  have "set (map ((!) p) inds) = (!) p ` {0..<length p}" using assms(4) l by simp
  also have "\<dots> = set p" by (auto simp: set_conv_nth)
  finally show "set (map ((!) p) inds) = {0..<n}" using assms(2) by simp
qed

lemma permute_all_perm:
  assumes "length E = n" "length s = n" "length oc = n"
    and "distinct p" "set p = {0..<n}" "distinct inds" "set inds = {0..<n}"
  shows "permute_all inds (map ((!) E) p, map ((!) s) p, map ((!) oc) p) =
         Inr (map ((!) E) (map ((!) p) inds), map ((!) s) (map ((!) p) inds),
              map ((!) oc) (map ((!) p) inds))"
  unfolding permute_all_def prod.case
    index_by_perm [OF assms(1) assms(4,5,7)] index_by_perm [OF assms(2) assms(4,5,7)]
    index_by_perm [OF assms(3) assms(4,5,7)] bind_err_simps ..

lemma tail_sort_perm:
  assumes "length oc = n" "n_cas \<le> n"
  shows "distinct ([0..<n_cas] @ map (\<lambda>k. n_cas + k) (rev (np_argsort (drop n_cas oc))))"
    and "set ([0..<n_cas] @ map (\<lambda>k. n_cas + k) (rev (np_argsort (drop n_cas oc)))) = {0..<n}"
proof -
  let ?t = "rev (np_argsort (drop n_cas oc))"
  have t: "distinct ?t" "set ?t = {0..<n - n_cas}"
    using argsort_perm [of "drop n_cas oc"] assms by simp_all
  show "distinct ([0..<n_cas] @ map (\<lambda>k. n_cas + k) ?t)"
    using t by (auto simp: distinct_map)
  have "(\<lambda>k. n_cas + k) ` {0..<n - n_cas} = {n_cas..<n}"
    using assms(2) by (auto simp: image_iff)
  then show "set ([0..<n_cas] @ map (\<lambda>k. n_cas + k) ?t) = {0..<n}"
    using t assms(2) by (simp only: set_append set_map set_upt) auto
qed

lemma append_upt_perm:
  assumes "distinct hs" "set hs = {0..<k}" "k \<le> n"
  shows "distinct (hs @ [k..<n])" "set (hs @ [k..<n]) = {0..<n}"
proof -
  have "{0..<k} \<inter> {k..<n} = {}" by (rule ivl_disj_int_two)
  then show "distinct (hs @ [k..<n])"
    using assms(1) by (simp add: assms(2))
  have "{0..<k} \<union> {k..<n} = {0..<n}"
    by (rule ivl_disj_un_two) (use assms(3) in simp_all)
  then show "set (hs @ [k..<n]) = {0..<n}"
    by (simp add: assms(2))
qed

lemma head_sort_perm:
  assumes "length oc = n" "n_cas \<le> n"
  shows "distinct (rev (np_argsort (take n_cas oc)) @ [n_cas..<n])"
    and "set (rev (np_argsort (take n_cas oc)) @ [n_cas..<n]) = {0..<n}"
proof -
  have l: "length (take n_cas oc) = n_cas" using assms by simp
  note h = argsort_perm [of "take n_cas oc", unfolded l]
  show "distinct (rev (np_argsort (take n_cas oc)) @ [n_cas..<n])"
    by (rule append_upt_perm(1) [OF h assms(2)])
  show "set (rev (np_argsort (take n_cas oc)) @ [n_cas..<n]) = {0..<n}"
    by (rule append_upt_perm(2) [OF h assms(2)])
qed

lemma core_front_perm:
  assumes "n_cas + n_core \<le> n"
  shows "distinct ([n_cas..<n_cas + n_core] @ [0..<n_cas] @ [n_cas + n_core..<n])"
    and "set ([n_cas..<n_cas + n_core] @ [0..<n_cas] @ [n_cas + n_core..<n]) = {0..<n}"
  using assms by auto

lemma matvec_eye:
  assumes "set p \<subseteq> {0..<n}" "length s = n"
  shows "matvec (map ((!) (eye_rows n)) p) s = map ((!) s) p"
proof -
  have "(\<Sum>j<n. eye_rows n ! k ! j * s ! j) = s ! k" if "k < n" for k
  proof -
    have "(\<Sum>j<n. eye_rows n ! k ! j * s ! j) = (\<Sum>j<n. if k = j then s ! j else 0)"
      using that by (intro sum.cong) (auto simp: eye_rows_def)
    also have "\<dots> = s ! k" using that by simp
    finally show ?thesis .
  qed
  then show ?thesis using assms by (auto simp: matvec_def)
qed

lemma np_allclose_refl: "np_allclose xs xs"
  by (simp add: np_allclose_def list_all2_same)

lemma final_check_inside:
  assumes "length oc = n" "n_core + n_cas < n" "np_allclose (matvec P s_init) s_val"
  shows "final_check n_cas n_core s_init (P, s_val, oc) = Inr P"
proof -
  have "\<exists>v. py_index oc (int (n_core + n_cas)) = Inr v"
    using assms(1,2) by (simp add: py_index_def Let_def)
  moreover have "\<exists>v. py_index oc (int (n_core + n_cas) - 1) = Inr v"
    using assms(1,2) by (auto simp: py_index_def Let_def)
  ultimately show ?thesis
    using assms(3) by (auto simp: final_check_def bind_err_simps)
qed

text \<open>
  Below the boundary the function returns: for \<open>n_core + n_cas < n_orb\<close> the
  four sorts go through, both reads of the warning are in range, the assertion
  holds, and the result is the identity matrix with its rows permuted.
\<close>

lemma reorder_fast_inside:
  assumes "n_core + n_cas < n_orb"
  shows "\<exists>p. distinct p \<and> set p = {0..<n_orb} \<and>
           reorder_fast n_orb gamma Gamma n_cas n_core = Inr (map ((!) (eye_rows n_orb)) p)"
proof -
  let ?E = "eye_rows n_orb"
  define s where "s = entropies n_orb gamma Gamma"
  define oc where "oc = occupations n_orb gamma"
  have len: "length ?E = n_orb" "length s = n_orb" "length oc = n_orb"
    by (simp_all add: eye_rows_def s_def oc_def entropies_def occupations_def)
  have cas: "n_cas \<le> n_orb" "n_cas + n_core \<le> n_orb" using assms by simp_all
  define p0 where "p0 = [0..<n_orb]"
  have p0: "distinct p0" "set p0 = {0..<n_orb}" by (simp_all add: p0_def)
  have id: "map ((!) ?E) p0 = ?E" "map ((!) s) p0 = s" "map ((!) oc) p0 = oc"
    using len map_nth [of ?E] map_nth [of s] map_nth [of oc] by (simp_all add: p0_def)
  define i1 where "i1 = rev (np_argsort s)"
  have i1: "distinct i1" "set i1 = {0..<n_orb}"
    using argsort_perm [of s] len by (simp_all add: i1_def)
  define p1 where "p1 = map ((!) p0) i1"
  note q1 = compose_perm [OF p0 i1, folded p1_def]
  have e1: "permute_all i1 (?E, s, oc) = Inr (map ((!) ?E) p1, map ((!) s) p1, map ((!) oc) p1)"
    using permute_all_perm [OF len p0 i1] unfolding id p1_def .
  have l1: "length (map ((!) oc) p1) = n_orb" using perm_length [OF q1] by simp
  define i2 where
    "i2 = [0..<n_cas] @ map (\<lambda>k. n_cas + k) (rev (np_argsort (drop n_cas (map ((!) oc) p1))))"
  note i2 = tail_sort_perm [OF l1 cas(1), folded i2_def]
  define p2 where "p2 = map ((!) p1) i2"
  note q2 = compose_perm [OF q1 i2, folded p2_def]
  have e2: "permute_all i2 (map ((!) ?E) p1, map ((!) s) p1, map ((!) oc) p1) =
      Inr (map ((!) ?E) p2, map ((!) s) p2, map ((!) oc) p2)"
    using permute_all_perm [OF len q1 i2] unfolding p2_def .
  have l2: "length (map ((!) oc) p2) = n_orb" using perm_length [OF q2] by simp
  define i3 where "i3 = rev (np_argsort (take n_cas (map ((!) oc) p2))) @ [n_cas..<n_orb]"
  note i3 = head_sort_perm [OF l2 cas(1), folded i3_def]
  define p3 where "p3 = map ((!) p2) i3"
  note q3 = compose_perm [OF q2 i3, folded p3_def]
  have e3: "permute_all i3 (map ((!) ?E) p2, map ((!) s) p2, map ((!) oc) p2) =
      Inr (map ((!) ?E) p3, map ((!) s) p3, map ((!) oc) p3)"
    using permute_all_perm [OF len q2 i3] unfolding p3_def .
  define i4 where "i4 = [n_cas..<n_cas + n_core] @ [0..<n_cas] @ [n_cas + n_core..<n_orb]"
  note i4 = core_front_perm [OF cas(2), folded i4_def]
  define p4 where "p4 = map ((!) p3) i4"
  note q4 = compose_perm [OF q3 i4, folded p4_def]
  have e4: "permute_all i4 (map ((!) ?E) p3, map ((!) s) p3, map ((!) oc) p3) =
      Inr (map ((!) ?E) p4, map ((!) s) p4, map ((!) oc) p4)"
    using permute_all_perm [OF len q3 i4] unfolding p4_def .
  have l4: "length (map ((!) oc) p4) = n_orb" using perm_length [OF q4] by simp
  have close: "np_allclose (matvec (map ((!) ?E) p4) s) (map ((!) s) p4)"
    using matvec_eye [of p4 n_orb s] q4(2) len(2) by (simp add: np_allclose_refl)
  have e5: "final_check n_cas n_core s (map ((!) ?E) p4, map ((!) s) p4, map ((!) oc) p4) =
      Inr (map ((!) ?E) p4)"
    by (rule final_check_inside [OF l4 assms close])
  have "reorder_fast n_orb gamma Gamma n_cas n_core = Inr (map ((!) ?E) p4)"
    unfolding reorder_fast_def Let_def s_def [symmetric] oc_def [symmetric] i1_def [symmetric]
      e1 bind_err_simps prod.case i2_def [symmetric] e2 i3_def [symmetric] e3
      i4_def [symmetric] e4 e5 ..
  with q4 show ?thesis by blast
qed

subsection \<open>C2: the assertion on the reference weight\<close>

text \<open>
  C2. \<open>make_tailored_ccsd\<close> fails with an assertion failure if and only if
  \<open>|c0| \<le> 1e-8\<close>, and then no target amplitudes exist; when \<open>|c0| > 1e-8\<close>
  the targets are \<open>t1 = c1/c0\<close> and \<open>t2 = c2/c0\<close> minus the outer product of
  \<open>t1\<close> with itself.
\<close>

theorem make_tailored_ccsd_assertion:
  "(make_tailored_ccsd po pv c0 c1 c2 = Inl AssertionError \<longleftrightarrow> \<bar>c0\<bar> \<le> 1 / 10 ^ 8) \<and>
   (\<bar>c0\<bar> \<le> 1 / 10 ^ 8 \<longrightarrow> (\<forall>r. make_tailored_ccsd po pv c0 c1 c2 \<noteq> Inr r)) \<and>
   (\<bar>c0\<bar> > 1 / 10 ^ 8 \<longrightarrow>
      (\<exists>r. make_tailored_ccsd po pv c0 c1 c2 = Inr r \<and>
           t1cas_fci r = (\<lambda>i a. c1 i a / c0) \<and>
           t2cas_fci r = (\<lambda>i j a b. c2 i j a b / c0 - (c1 i a / c0) * (c1 j b / c0))))"
  by (simp add: make_tailored_ccsd_def get_cas_t1t2_def Let_def)

theorem make_tailored_ccsd_assertion_witness:
  "make_tailored_ccsd (\<lambda>i a. 1) (\<lambda>i a. 1) 0 (\<lambda>i a. 1) (\<lambda>i j a b. 1) = Inl AssertionError \<and>
   (\<exists>r. make_tailored_ccsd (\<lambda>i a. 1) (\<lambda>i a. 1) 2 (\<lambda>i a. 1) (\<lambda>i j a b. 1) = Inr r \<and>
        t1cas_fci r 0 0 = 1 / 2 \<and> t2cas_fci r 0 0 0 0 = 1 / 4)"
proof -
  have fails: "make_tailored_ccsd (\<lambda>i a. 1) (\<lambda>i a. 1) 0 (\<lambda>i a. 1) (\<lambda>i j a b. 1) = Inl AssertionError"
    using make_tailored_ccsd_assertion [of "\<lambda>i a. 1" "\<lambda>i a. 1" 0 "\<lambda>i a. 1" "\<lambda>i j a b. 1"]
    by simp
  have "\<bar>2 :: real\<bar> > 1 / 10 ^ 8" by simp
  with make_tailored_ccsd_assertion [of "\<lambda>i a. 1" "\<lambda>i a. 1" 2 "\<lambda>i a. 1" "\<lambda>i j a b. 1"]
  obtain r where r: "make_tailored_ccsd (\<lambda>i a. 1) (\<lambda>i a. 1) 2 (\<lambda>i a. 1) (\<lambda>i j a b. 1) = Inr r"
    "t1cas_fci r = (\<lambda>i a. 1 / 2)"
    "t2cas_fci r = (\<lambda>i j a b. 1 / 2 - (1 / 2) * (1 / 2))"
    by auto
  have "t1cas_fci r 0 0 = 1 / 2" "t2cas_fci r 0 0 0 0 = 1 / 4"
    by (simp_all add: r)
  with fails r(1) show ?thesis by blast
qed

subsection \<open>C8: the range of the raw random matrix\<close>

text \<open>
  C8, as the code has it. For a denominator draw \<open>u \<ge> 0\<close>, the values that an
  entry of the raw matrix of line 197 takes over all draws in \<open>[0, 1)\<close> are
  exactly the interval from \<open>-1 / (1 + 49 u)\<close> (included) to
  \<open>-0.5 / (1 + 49 u)\<close> (excluded): \<open>rand / 2 - 1\<close> lies in \<open>[-1, -0.5)\<close>.
  Every entry is therefore inside \<open>[-1, 1] / (1 + 49 u)\<close>, and is negative.
\<close>

theorem initial_X_range:
  assumes u: "0 \<le> u"
  shows "{initial_X R u a b | R. rand_draws R} =
         {v. - 1 / (1 + 49 * u) \<le> v \<and> v < - (1 / 2) / (1 + 49 * u)}"
proof -
  have d: "0 < 1 + 49 * u" using u by simp
  show ?thesis
  proof (intro set_eqI iffI)
    fix v assume "v \<in> {initial_X R u a b | R. rand_draws R}"
    then obtain R where R: "rand_draws R" and v: "v = initial_X R u a b" by blast
    from R have r: "0 \<le> R a b" "R a b < 1" by (simp_all add: rand_draws_def)
    have "- 1 \<le> R a b / 2 - 1" "R a b / 2 - 1 < - (1 / 2)" using r by simp_all
    then have "- 1 / (1 + 49 * u) \<le> (R a b / 2 - 1) / (1 + 49 * u)"
      "(R a b / 2 - 1) / (1 + 49 * u) < - (1 / 2) / (1 + 49 * u)"
      using d by (blast intro: divide_right_mono less_imp_le divide_strict_right_mono)+
    then show "v \<in> {v. - 1 / (1 + 49 * u) \<le> v \<and> v < - (1 / 2) / (1 + 49 * u)}"
      by (simp add: v initial_X_def)
  next
    fix v assume "v \<in> {v. - 1 / (1 + 49 * u) \<le> v \<and> v < - (1 / 2) / (1 + 49 * u)}"
    then have v: "- 1 / (1 + 49 * u) \<le> v" "v < - (1 / 2) / (1 + 49 * u)" by simp_all
    define r where "r = 2 * (v * (1 + 49 * u) + 1)"
    have "- 1 \<le> v * (1 + 49 * u)"
      using v(1) by (subst (asm) pos_divide_le_eq [OF d])
    moreover have "v * (1 + 49 * u) < - (1 / 2)"
      using v(2) by (subst (asm) pos_less_divide_eq [OF d])
    ultimately have r: "0 \<le> r" "r < 1" by (simp_all add: r_def)
    have "r / 2 - 1 = v * (1 + 49 * u)" unfolding r_def by (simp add: add_divide_distrib)
    moreover have "v * (1 + 49 * u) / (1 + 49 * u) = v"
      using d by (intro nonzero_mult_div_cancel_right) simp
    ultimately have "(r / 2 - 1) / (1 + 49 * u) = v" by simp
    then have "initial_X (\<lambda>a b. r) u a b = v" by (simp add: initial_X_def)
    moreover have "rand_draws (\<lambda>a b. r)" using r by (simp add: rand_draws_def)
    ultimately show "v \<in> {initial_X R u a b | R. rand_draws R}" by blast
  qed
qed

theorem initial_X_range_witness:
  "(0 :: real) \<le> 0 \<and>
   {initial_X R 0 0 0 | R. rand_draws R} = {v. - 1 \<le> v \<and> v < - (1 / 2)}"
  using initial_X_range [of 0 0 0] by simp

text \<open>
  The claim as stated fails: with the denominator draw \<open>u = 0\<close> the value \<open>0\<close>
  lies in \<open>(-0.5, 1] / (1 + 49 u)\<close>, and no draw gives it.
\<close>

theorem initial_X_full_interval_counterexample:
  "\<not> (\<forall>v. - (1 / 2) / (1 + 49 * 0) < v \<and> v \<le> 1 / (1 + 49 * 0) \<longrightarrow>
        (\<exists>R. rand_draws R \<and> initial_X R 0 0 0 = v))"
proof
  assume "\<forall>v. - (1 / 2) / (1 + 49 * 0) < v \<and> v \<le> 1 / (1 + 49 * 0) \<longrightarrow>
    (\<exists>R. rand_draws R \<and> initial_X R 0 0 0 = v)"
  then have "\<exists>R. rand_draws R \<and> initial_X R 0 0 0 = 0" by simp
  then obtain R where R: "rand_draws R" and X: "initial_X R 0 0 0 = 0" by blast
  from R have "R 0 0 < 1" unfolding rand_draws_def by blast
  moreover from X have "R 0 0 = 2" by (simp add: initial_X_def)
  ultimately show False by simp
qed

subsection \<open>C1: the selective update against the full contraction\<close>

text \<open>
  C1, as the code has it. For \<open>i \<noteq> j\<close> inside the range, the 1-RDM that
  \<open>jacobi_transform\<close> returns agrees with the full contraction of the
  spin-doubled \<open>U1\<close> against \<open>gamma\<close> (lines 200 and 201 do that contraction)
  on every same-spin entry; it agrees on every entry when \<open>gamma\<close> has no
  mixed-spin entries.
\<close>

theorem jacobi_transform_selective:
  assumes "i \<noteq> j" "i < no" "j < no"
    and "jacobi_transform no gm G i j t = Inr (g', G')"
  shows "(\<forall>p<2 * no. \<forall>q<2 * no. p mod 2 = q mod 2 \<longrightarrow>
            g' p q = einsum_gamma (2 * no) (np_kron_eye2 (rotation_U1 i j t)) gm p q) \<and>
         (spin_blocked no gm \<longrightarrow>
            (\<forall>p<2 * no. \<forall>q<2 * no.
               g' p q = einsum_gamma (2 * no) (np_kron_eye2 (rotation_U1 i j t)) gm p q))"
proof -
  have same: "g' p q = einsum_gamma (2 * no) (np_kron_eye2 (rotation_U1 i j t)) gm p q"
    if "p mod 2 = q mod 2" for p q
    using that by (simp add: jacobi_transform_gamma [OF assms] einsum_gamma_kron)
  have mixed: "g' p q = einsum_gamma (2 * no) (np_kron_eye2 (rotation_U1 i j t)) gm p q"
    if "p mod 2 \<noteq> q mod 2" "spin_blocked no gm" for p q
    using that by (simp add: jacobi_transform_gamma [OF assms] einsum_gamma_kron rot_mixed_zero)
  show ?thesis using same mixed by blast
qed

theorem jacobi_transform_selective_witness:
  "(0 :: nat) \<noteq> 1 \<and> (0 :: nat) < 2 \<and> (1 :: nat) < 2 \<and> spin_blocked 2 np_eye \<and>
   (\<exists>g' G'. jacobi_transform 2 np_eye Gamma_zero 0 1 1 = Inr (g', G') \<and>
      g' 0 2 = einsum_gamma (2 * 2) (np_kron_eye2 (rotation_U1 0 1 1)) np_eye 0 2 \<and>
      g' 0 1 = einsum_gamma (2 * 2) (np_kron_eye2 (rotation_U1 0 1 1)) np_eye 0 1)"
proof -
  have "\<exists>g' G'. jacobi_transform 2 np_eye Gamma_zero 0 1 1 = Inr (g', G')"
    by (rule jacobi_transform_succeeds) simp_all
  then obtain g' G' where r: "jacobi_transform 2 np_eye Gamma_zero 0 1 1 = Inr (g', G')"
    by blast
  have i: "(0 :: nat) \<noteq> 1" "(0 :: nat) < 2" "(1 :: nat) < 2" by simp_all
  note t = jacobi_transform_selective [OF i r]
  have "g' 0 2 = einsum_gamma (2 * 2) (np_kron_eye2 (rotation_U1 0 1 1)) np_eye 0 2"
    using t by simp
  moreover have "g' 0 1 = einsum_gamma (2 * 2) (np_kron_eye2 (rotation_U1 0 1 1)) np_eye 0 1"
    using t spin_blocked_eye [of 2] by simp
  ultimately show ?thesis using r i spin_blocked_eye [of 2] by blast
qed

text \<open>
  The claim as stated, for every \<open>gamma\<close>, fails: on the 1-RDM with every entry
  1, two orbitals and the angle 0, the selective update leaves the mixed-spin
  entry \<open>[0, 1]\<close> at 0 and the full contraction gives 1.
\<close>

theorem jacobi_transform_selective_counterexample:
  "gamma_entry (jacobi_transform 2 gamma_ones Gamma_zero 0 1 0) 0 1 = Inr 0 \<and>
   einsum_gamma (2 * 2) (np_kron_eye2 (rotation_U1 0 1 0)) gamma_ones 0 1 = 1"
proof -
  have "\<exists>g' G'. jacobi_transform 2 gamma_ones Gamma_zero 0 1 0 = Inr (g', G')"
    by (rule jacobi_transform_succeeds) simp_all
  then obtain g' G' where r: "jacobi_transform 2 gamma_ones Gamma_zero 0 1 0 = Inr (g', G')"
    by blast
  have "g' 0 1 = 0"
    using jacobi_transform_gamma [OF _ _ _ r, of 0 1] by simp
  then have "gamma_entry (jacobi_transform 2 gamma_ones Gamma_zero 0 1 0) 0 1 = Inr 0"
    unfolding gamma_entry_def r by simp
  moreover have "einsum_gamma (2 * 2) (np_kron_eye2 (rotation_U1 0 1 0)) gamma_ones 0 1 = 1"
    unfolding einsum_gamma_kron
    by (simp add: rot_row_def rot_col_def rot_apply_zero spin_block_def gamma_ones_def)
  ultimately show ?thesis by blast
qed

subsection \<open>C6: two transforms on one pair compose\<close>

text \<open>
  C6. For \<open>i \<noteq> j\<close> inside the range, \<open>jacobi_transform\<close> with the angle
  \<open>t1\<close> followed by \<open>jacobi_transform\<close> with the angle \<open>t2\<close> on the same
  pair returns the pair \<open>(gamma, Gamma)\<close> that one \<open>jacobi_transform\<close> with
  the angle \<open>t1 + t2\<close> returns. Over the reals the two results are equal.
\<close>

theorem jacobi_transform_compose:
  assumes "i \<noteq> j" "i < no" "j < no"
  shows "\<exists>g1 G1 g2 G2.
     jacobi_transform no gm G i j t1 = Inr (g1, G1) \<and>
     jacobi_transform no g1 G1 i j t2 = Inr (g2, G2) \<and>
     jacobi_transform no gm G i j (t1 + t2) = Inr (g2, G2)"
proof -
  obtain g1 G1 where r1: "jacobi_transform no gm G i j t1 = Inr (g1, G1)"
    and G1: "G1 = einsum_Gamma no (rotation_U1 i j t1) G"
    using assms by (simp add: jacobi_transform_def Let_def)
  obtain g2 G2 where r2: "jacobi_transform no g1 G1 i j t2 = Inr (g2, G2)"
    and G2: "G2 = einsum_Gamma no (rotation_U1 i j t2) G1"
    using assms by (simp add: jacobi_transform_def Let_def)
  obtain g3 G3 where r3: "jacobi_transform no gm G i j (t1 + t2) = Inr (g3, G3)"
    and G3: "G3 = einsum_Gamma no (rotation_U1 i j (t1 + t2)) G"
    using assms by (simp add: jacobi_transform_def Let_def)
  have "G2 = G3"
    by (simp add: G1 G2 G3 einsum_Gamma_compose [OF assms])
  moreover have "g2 = g3"
  proof (intro ext)
    fix r c :: nat
    have blk: "spin_block s s g1 =
      rot_row no i j t1 (rot_col no i j t1 (spin_block s s gm))" if "s < 2" for s
    proof (intro ext)
      fix m n
      have "(2 * m + s) mod 2 = s" "(2 * m + s) div 2 = m" "(2 * n + s) mod 2 = s"
        "(2 * n + s) div 2 = n"
        using that by simp_all
      then show "spin_block s s g1 m n =
        rot_row no i j t1 (rot_col no i j t1 (spin_block s s gm)) m n"
        using jacobi_transform_gamma [OF assms r1, of "2 * m + s" "2 * n + s"]
        by (simp add: spin_block_def)
    qed
    have key: "rot_row no i j t2 (rot_col no i j t2 (spin_block s s g1)) =
      rot_row no i j (t1 + t2) (rot_col no i j (t1 + t2) (spin_block s s gm))" if "s < 2" for s
      by (simp add: blk [OF that] rot_matrix_commute rot_matrix_compose [OF assms])
    have s: "r mod 2 < 2" by simp
    show "g2 r c = g3 r c"
      unfolding jacobi_transform_gamma [OF assms r2] jacobi_transform_gamma [OF assms r3]
        key [OF s] ..
  qed
  ultimately show ?thesis using r1 r2 r3 by blast
qed

theorem jacobi_transform_compose_witness:
  "(0 :: nat) \<noteq> 1 \<and> (0 :: nat) < 2 \<and> (1 :: nat) < 2 \<and>
   (\<exists>g1 G1 g2 G2.
      jacobi_transform 2 gamma_ones Gamma_zero 0 1 1 = Inr (g1, G1) \<and>
      jacobi_transform 2 g1 G1 0 1 2 = Inr (g2, G2) \<and>
      jacobi_transform 2 gamma_ones Gamma_zero 0 1 3 = Inr (g2, G2))"
proof -
  have i: "(0 :: nat) \<noteq> 1" "(0 :: nat) < 2" "(1 :: nat) < 2" by simp_all
  show ?thesis
    using jacobi_transform_compose [OF i, of gamma_ones Gamma_zero 1 2] i by simp
qed

subsection \<open>C7: the angle zero\<close>

text \<open>
  C7, as the code has it. For \<open>i \<noteq> j\<close> inside the range,
  \<open>jacobi_transform\<close> with the angle 0 returns \<open>Gamma\<close> unchanged and the
  same-spin entries of \<open>gamma\<close> unchanged, and sets the mixed-spin entries to
  0: the pair is returned unchanged when \<open>gamma\<close> has no mixed-spin entries.
\<close>

theorem jacobi_transform_zero_angle:
  assumes "i \<noteq> j" "i < no" "j < no"
  shows "\<exists>g' G'. jacobi_transform no gm G i j 0 = Inr (g', G') \<and>
     (\<forall>a<no. \<forall>b<no. \<forall>c<no. \<forall>d<no. G' a b c d = G a b c d) \<and>
     (\<forall>a<no. \<forall>b<no.
        g' (2 * a) (2 * b) = gm (2 * a) (2 * b) \<and>
        g' (2 * a + 1) (2 * b + 1) = gm (2 * a + 1) (2 * b + 1) \<and>
        g' (2 * a) (2 * b + 1) = 0 \<and> g' (2 * a + 1) (2 * b) = 0) \<and>
     (spin_blocked no gm \<longrightarrow> (\<forall>p<2 * no. \<forall>q<2 * no. g' p q = gm p q))"
proof -
  obtain g' G' where r: "jacobi_transform no gm G i j 0 = Inr (g', G')"
    and G': "G' = einsum_Gamma no (rotation_U1 i j 0) G"
    using assms by (simp add: jacobi_transform_def Let_def)
  have G: "\<forall>a<no. \<forall>b<no. \<forall>c<no. \<forall>d<no. G' a b c d = G a b c d"
    using assms by (simp add: G' einsum_Gamma_zero)
  have entry: "g' p q = (if p mod 2 = q mod 2 then gm p q else 0)"
    if "p < 2 * no" "q < 2 * no" for p q
  proof -
    have d: "p div 2 < no" "q div 2 < no" using that by auto
    show ?thesis
    proof (cases "p mod 2 = q mod 2")
      case True
      have "2 * (p div 2) + p mod 2 = p" "2 * (q div 2) + q mod 2 = q" by simp_all
      with True have "spin_block (p mod 2) (p mod 2) gm (p div 2) (q div 2) = gm p q"
        by (simp add: spin_block_def)
      with True d assms show ?thesis
        by (simp add: jacobi_transform_gamma [OF assms r] rot_row_def rot_col_def rot_apply_zero)
    next
      case False
      then show ?thesis by (simp add: jacobi_transform_gamma [OF assms r])
    qed
  qed
  have same: "\<forall>a<no. \<forall>b<no.
        g' (2 * a) (2 * b) = gm (2 * a) (2 * b) \<and>
        g' (2 * a + 1) (2 * b + 1) = gm (2 * a + 1) (2 * b + 1) \<and>
        g' (2 * a) (2 * b + 1) = 0 \<and> g' (2 * a + 1) (2 * b) = 0"
    by (simp add: entry)
  have blocked: "\<forall>p<2 * no. \<forall>q<2 * no. g' p q = gm p q" if sb: "spin_blocked no gm"
  proof (intro allI impI)
    fix p q assume pq: "p < 2 * no" "q < 2 * no"
    show "g' p q = gm p q"
    proof (cases "p mod 2 = q mod 2")
      case True
      then show ?thesis by (simp add: entry pq)
    next
      case False
      have d: "p div 2 < no" "q div 2 < no" using pq by auto
      have "gm p q = 0"
      proof (cases "even p")
        case True
        with False have "odd q" by presburger
        then have "gm (2 * (p div 2)) (2 * (q div 2) + 1) = 0 \<Longrightarrow> gm p q = 0"
          using True by (auto elim!: oddE evenE)
        then show ?thesis using sb d by (simp add: spin_blocked_def)
      next
        case odd: False
        with False have "even q" by presburger
        then have "gm (2 * (p div 2) + 1) (2 * (q div 2)) = 0 \<Longrightarrow> gm p q = 0"
          using odd by (auto elim!: oddE evenE)
        then show ?thesis using sb d by (simp add: spin_blocked_def)
      qed
      then show ?thesis using False by (simp add: entry pq)
    qed
  qed
  show ?thesis using r G same blocked by blast
qed

theorem jacobi_transform_zero_angle_witness:
  "(0 :: nat) \<noteq> 1 \<and> (0 :: nat) < 2 \<and> (1 :: nat) < 2 \<and> spin_blocked 2 np_eye \<and>
   (\<exists>g' G'. jacobi_transform 2 np_eye Gamma_zero 0 1 0 = Inr (g', G') \<and>
      G' 0 1 1 0 = Gamma_zero 0 1 1 0 \<and> g' 0 0 = 1 \<and> g' 3 3 = 1 \<and> g' 0 2 = 0 \<and> g' 0 1 = 0)"
proof -
  have i: "(0 :: nat) \<noteq> 1" "(0 :: nat) < 2" "(1 :: nat) < 2" by simp_all
  from jacobi_transform_zero_angle [OF i, of np_eye Gamma_zero]
  obtain g' G' where r: "jacobi_transform 2 np_eye Gamma_zero 0 1 0 = Inr (g', G')"
    and G: "\<forall>a<2. \<forall>b<2. \<forall>c<2. \<forall>d<2. G' a b c d = Gamma_zero a b c d"
    and g: "spin_blocked 2 np_eye \<longrightarrow> (\<forall>p<2 * 2. \<forall>q<2 * 2. g' p q = np_eye p q)"
    by blast
  have "G' 0 1 1 0 = Gamma_zero 0 1 1 0" using G by simp
  moreover have "g' 0 0 = 1" "g' 3 3 = 1" "g' 0 2 = 0" "g' 0 1 = 0"
    using g spin_blocked_eye [of 2] by (simp_all add: np_eye_def)
  ultimately show ?thesis using r i spin_blocked_eye [of 2] by blast
qed

text \<open>
  The claim as stated, for every input, fails: on the 1-RDM with every entry 1
  the entry \<open>[0, 1]\<close> is 1 before the transform with the angle 0 and 0 after.
\<close>

theorem jacobi_transform_zero_angle_counterexample:
  "gamma_entry (jacobi_transform 2 gamma_ones Gamma_zero 0 1 0) 0 1 = Inr 0 \<and>
   gamma_ones 0 1 = 1"
proof -
  have "\<exists>g' G'. jacobi_transform 2 gamma_ones Gamma_zero 0 1 0 = Inr (g', G')"
    by (rule jacobi_transform_succeeds) simp_all
  then obtain g' G' where r: "jacobi_transform 2 gamma_ones Gamma_zero 0 1 0 = Inr (g', G')"
    by blast
  have "g' 0 1 = 0"
    using jacobi_transform_gamma [OF _ _ _ r, of 0 1] by simp
  then have "gamma_entry (jacobi_transform 2 gamma_ones Gamma_zero 0 1 0) 0 1 = Inr 0"
    unfolding gamma_entry_def r by simp
  moreover have "gamma_ones 0 1 = 1" by (simp add: gamma_ones_def)
  ultimately show ?thesis by blast
qed

subsection \<open>C10: the mixed-spin entries of the result\<close>

text \<open>
  C10. Whatever the input \<open>gamma\<close>, the indices and the angle, every mixed-spin
  entry \<open>[2a, 2b+1]\<close> and \<open>[2a+1, 2b]\<close> of the 1-RDM that \<open>jacobi_transform\<close>
  returns is 0: the loops assign same-spin entries only, over a matrix of
  zeros.
\<close>

theorem jacobi_transform_mixed_spin_zero:
  assumes "jacobi_transform no gm G i j t = Inr (g', G')"
  shows "g' (2 * a) (2 * b + 1) = 0 \<and> g' (2 * a + 1) (2 * b) = 0"
proof -
  have "g' = fold (update_row (rotation_U1 i j t) gm i j no) [0..<no] np_zeros"
    using assms by (simp add: jacobi_transform_def Let_def split: if_splits)
  then show ?thesis by (simp add: fold_update_row np_zeros_def)
qed

theorem jacobi_transform_mixed_spin_zero_witness:
  "\<exists>g' G'. jacobi_transform 2 gamma_ones Gamma_zero 0 1 1 = Inr (g', G') \<and>
     g' 0 1 = 0 \<and> g' 1 0 = 0 \<and> g' 2 1 = 0"
proof -
  have "\<exists>g' G'. jacobi_transform 2 gamma_ones Gamma_zero 0 1 1 = Inr (g', G')"
    by (rule jacobi_transform_succeeds) simp_all
  then obtain g' G' where r: "jacobi_transform 2 gamma_ones Gamma_zero 0 1 1 = Inr (g', G')"
    by blast
  have "g' 0 1 = 0" "g' 1 0 = 0"
    using jacobi_transform_mixed_spin_zero [OF r, of 0 0] by simp_all
  moreover have "g' 2 1 = 0"
    using jacobi_transform_mixed_spin_zero [OF r, of 1 0] by simp
  ultimately show ?thesis using r by blast
qed

subsection \<open>C3: the result of the angle search\<close>

text \<open>
  C3. When no index is out of range, \<open>jacobi_direct\<close> returns: the coarse scan
  ends with some \<open>(t_opt, cost)\<close>, and the result is \<open>None\<close> exactly when the
  fine scan accepts no angle, which is when no angle of the fine window
  improves on \<open>cost\<close> by more than \<open>1e-8\<close>; otherwise the result is the last
  angle that the fine scan accepted, each acceptance improving the current
  best cost by more than \<open>1e-8\<close>.
\<close>

theorem jacobi_direct_result:
  assumes "\<not> ((i \<in> set inactive_indices \<or> j \<in> set inactive_indices) \<and> \<not> (i < no \<and> j < no))"
  shows "\<exists>t_opt cost.
     coarse_scan no i j gamma Gamma inactive_indices = Inr (t_opt, cost) \<and>
     jacobi_direct no i j gamma Gamma inactive_indices =
       Inr (if accepted_angles (\<lambda>t. jacobi_cost_value t i j gamma Gamma inactive_indices)
                 cost (fine_window t_opt) = []
            then None
            else Some (last (accepted_angles
                   (\<lambda>t. jacobi_cost_value t i j gamma Gamma inactive_indices)
                   cost (fine_window t_opt)))) \<and>
     (accepted_angles (\<lambda>t. jacobi_cost_value t i j gamma Gamma inactive_indices)
         cost (fine_window t_opt) = [] \<longleftrightarrow>
      (\<forall>t\<in>set (fine_window t_opt).
         \<not> cost > jacobi_cost_value t i j gamma Gamma inactive_indices + 1 / 10 ^ 8))"
proof -
  from coarse_scan_ok [OF assms]
  obtain t_opt cost where "coarse_scan no i j gamma Gamma inactive_indices = Inr (t_opt, cost)"
    by blast
  with jacobi_direct_scan [OF this] show ?thesis by blast
qed

theorem jacobi_direct_result_witness:
  "\<not> (((0 :: nat) \<in> set [0, 1] \<or> (1 :: nat) \<in> set [0, 1]) \<and> \<not> ((0 :: nat) < 2 \<and> (1 :: nat) < 2)) \<and>
   coarse_scan 2 0 1 np_zeros Gamma_zero [0, 1] = Inr (0, 0) \<and>
   jacobi_direct 2 0 1 np_zeros Gamma_zero [0, 1] = Inr None"
proof -
  have ok: "\<not> (((0 :: nat) \<in> set [0, 1] \<or> (1 :: nat) \<in> set [0, 1]) \<and>
      \<not> ((0 :: nat) < 2 \<and> (1 :: nat) < 2))"
    by simp
  let ?f = "\<lambda>t. jacobi_cost_value t 0 1 np_zeros Gamma_zero [0, 1]"
  from jacobi_direct_result [OF ok, of np_zeros Gamma_zero]
  obtain t_opt cost where c: "coarse_scan 2 0 1 np_zeros Gamma_zero [0, 1] = Inr (t_opt, cost)"
    and d: "jacobi_direct 2 0 1 np_zeros Gamma_zero [0, 1] =
       Inr (if accepted_angles ?f cost (fine_window t_opt) = [] then None
            else Some (last (accepted_angles ?f cost (fine_window t_opt))))"
    and a: "accepted_angles ?f cost (fine_window t_opt) = [] \<longleftrightarrow>
      (\<forall>t\<in>set (fine_window t_opt). \<not> cost > ?f t + 1 / 10 ^ 8)"
    by blast
  from c have tc: "t_opt = 0" "cost = 0" unfolding vacuum_coarse_scan by simp_all
  have "\<forall>t\<in>set (fine_window t_opt). \<not> cost > ?f t + 1 / 10 ^ 8"
    unfolding vacuum_cost tc by simp
  with a have acc: "accepted_angles ?f cost (fine_window t_opt) = []" by blast
  from d have "jacobi_direct 2 0 1 np_zeros Gamma_zero [0, 1] = Inr None"
    unfolding acc by simp
  with ok vacuum_coarse_scan show ?thesis by blast
qed

subsection \<open>C4: the fine window after a coarse scan without improvement\<close>

text \<open>
  C4, as the code has it. When the coarse scan finds no improving angle, so
  that \<open>t_opt\<close> is still 0, \<open>t_opt\<close> becomes \<open>grid = 0.01\<close> and the fine loop
  runs over \<open>np.arange(t_opt - grid, t_opt + grid, 0.0001)\<close>: the window is
  centred on \<open>grid\<close> and starts at 0. The fine scan examines the 200 angles
  \<open>k * 0.0001\<close>, \<open>k = 0, \<dots>, 199\<close>; all of them lie in \<open>[0, 0.02)\<close>.
\<close>

theorem fine_angles_no_improvement:
  assumes "coarse_scan no i j gamma Gamma inactive_indices = Inr (t_opt, cost)"
    and "t_opt = 0"
  shows "\<exists>ts. fine_angles no i j gamma Gamma inactive_indices = Inr ts \<and>
           length ts = 200 \<and> (\<forall>k<200. ts ! k = real k / 10000) \<and>
           (\<forall>t\<in>set ts. 0 \<le> t \<and> t < 2 / 100)"
proof -
  let ?ts = "map (\<lambda>k. real k / 10000) [0..<200]"
  have "fine_angles no i j gamma Gamma inactive_indices = Inr ?ts"
    using assms by (simp add: fine_angles_def fine_window_zero)
  moreover have "length ?ts = 200" by simp
  moreover have "\<forall>k<200. ?ts ! k = real k / 10000" by simp
  moreover have "\<forall>t\<in>set ?ts. 0 \<le> t \<and> t < 2 / 100" by auto
  ultimately show ?thesis by blast
qed

theorem fine_angles_no_improvement_witness:
  "coarse_scan 2 0 1 np_zeros Gamma_zero [0, 1] = Inr (0, 0) \<and>
   (\<exists>ts. fine_angles 2 0 1 np_zeros Gamma_zero [0, 1] = Inr ts \<and> length ts = 200 \<and>
      ts ! 0 = 0 \<and> ts ! 199 = 199 / 10000)"
proof -
  from fine_angles_no_improvement [OF vacuum_coarse_scan]
  obtain ts where ts: "fine_angles 2 0 1 np_zeros Gamma_zero [0, 1] = Inr ts" "length ts = 200"
    "\<forall>k<200. ts ! k = real k / 10000"
    by blast
  from ts(3) [rule_format, of 0] ts(3) [rule_format, of 199]
  have "ts ! 0 = 0" "ts ! 199 = 199 / 10000" by simp_all
  with ts vacuum_coarse_scan show ?thesis by blast
qed

text \<open>
  The claim as stated, that every angle of the fine pass is at least \<open>0.01\<close>,
  fails: for the pair of orbitals 0 and 1 of the empty state (both RDMs zero,
  both orbitals inactive) the cost is 0 at every angle, the coarse scan ends
  with \<open>t_opt = 0\<close>, and the fine scan examines the angle 0.
\<close>

theorem fine_angles_from_grid_counterexample:
  "coarse_scan 2 0 1 np_zeros Gamma_zero [0, 1] = Inr (0, 0) \<and>
   fine_angles 2 0 1 np_zeros Gamma_zero [0, 1] = Inr (fine_window 0) \<and>
   0 \<in> set (fine_window 0) \<and> \<not> (0 :: real) \<ge> 1 / 100"
proof -
  have "0 \<in> set (fine_window 0)"
    unfolding fine_window_zero by (simp add: image_iff)
  moreover have "fine_angles 2 0 1 np_zeros Gamma_zero [0, 1] = Inr (fine_window 0)"
    unfolding fine_angles_def vacuum_coarse_scan by simp
  moreover have "\<not> (0 :: real) \<ge> 1 / 100" by simp
  ultimately show ?thesis using vacuum_coarse_scan by blast
qed

subsection \<open>C9: the swaps of the bubble sort\<close>

text \<open>
  C9. For every 1-RDM on \<open>no\<close> orbitals the bubble-sort phase of \<open>reorder\<close>
  terminates (\<open>bubble_loop\<close> is a total function), and it writes at most
  \<open>no (no - 1) / 2\<close> rotation records, every one of them with the angle 0.
\<close>

theorem reorder_bubble_swap_bound:
  "length (rotations (bubble_loop no (reorder_init no gamma))) \<le> no * (no - 1) div 2 \<and>
   length (filter (\<lambda>r. snd (snd r) = 0) (rotations (bubble_loop no (reorder_init no gamma)))) =
   length (rotations (bubble_loop no (reorder_init no gamma)))"
proof -
  let ?st = "reorder_init no gamma"
  have init: "rotations ?st = []" "length (S1 ?st) = no"
    by (simp_all add: reorder_init_def)
  from bubble_loop_count [of no ?st]
  have c: "unsorted_pairs (S1 (bubble_loop no ?st)) + length (rotations (bubble_loop no ?st)) =
      unsorted_pairs (S1 ?st)"
    and z: "set (rotations (bubble_loop no ?st)) \<subseteq> {r. snd (snd r) = 0}"
    by (simp_all add: init)
  have "2 * length (rotations (bubble_loop no ?st)) \<le> 2 * unsorted_pairs (S1 ?st)"
    using c by simp
  also have "\<dots> \<le> no * (no - 1)"
    using unsorted_pairs_bound [of "S1 ?st"] by (simp add: init)
  finally have "length (rotations (bubble_loop no ?st)) \<le> no * (no - 1) div 2"
    by simp
  moreover have "filter (\<lambda>r. snd (snd r) = 0) (rotations (bubble_loop no ?st)) =
      rotations (bubble_loop no ?st)"
    using z by (intro filter_True) blast
  ultimately show ?thesis by simp
qed

subsection \<open>C5: the fast reordering at the boundary\<close>

text \<open>
  C5. The claim covers every \<open>n_core + n_cas \<le> n_orb\<close>. At the boundary
  \<open>n_core + n_cas = n_orb\<close> (no orbital left outside core and active space)
  \<open>reorder_fast\<close> returns no permutation matrix: the comparison of the
  warning reads \<open>occ_num[n_core+n_cas]\<close>, one past the end of the array,
  and raises IndexError before the assertion is reached. Below the boundary
  the claim holds (\<open>reorder_fast_inside\<close>).
\<close>

theorem reorder_fast_boundary_error:
  assumes "n_core + n_cas = n_orb"
  shows "reorder_fast n_orb gamma Gamma n_cas n_core = Inl IndexError"
proof -
  let ?last = "[n_cas..<n_cas + n_core] @ [0..<n_cas] @ [n_cas + n_core..<n_orb]"
  have len: "length ?last = n_core + n_cas" using assms by simp
  have last: "bind_err (permute_all ?last st) (final_check n_cas n_core s_init) = Inl IndexError"
    for st s_init
    using permute_all_cases [of ?last st] final_check_boundary [of _ n_core n_cas s_init]
    by (auto simp: bind_err_simps len simp del: length_append)
  have step: "bind_err (permute_all inds st) (\<lambda>(P, s_val, occ_num). F P s_val occ_num) =
      Inl IndexError"
    if "\<And>P s_val occ_num. F P s_val occ_num = Inl IndexError" for inds st
      and F :: "real list list \<Rightarrow> real list \<Rightarrow> real list \<Rightarrow> error + real list list"
    using permute_all_cases [of inds st] that by (auto simp: bind_err_simps)
  show ?thesis
    unfolding reorder_fast_def Let_def
    by (intro step last)
qed

theorem reorder_fast_boundary_error_witness:
  "(0 :: nat) + 1 = 1 \<and> reorder_fast 1 gamma_half Gamma_quarter 1 0 = Inl IndexError"
  using reorder_fast_boundary_error [of 0 1 1 gamma_half Gamma_quarter] by simp

end
